theory Spec2Isabelle
  imports Main "HOL-Library.Sublist"
begin

section \<open>Values, exceptions and traced results\<close>

text \<open>
  The interceptor never looks inside the values that travel through it (the
  authenticated user, the argument values, the data the handler produces): it
  stores them in the voter context and hands them to the voters. A small
  datatype of JavaScript values is enough for them.
\<close>

datatype js_value =
    JUndefined
  | JNull
  | JBool bool
  | JNum int
  | JStr string
  | JObj "(string \<times> js_value) list"

text \<open>JavaScript truthiness, as \<^verbatim>\<open>voter.supports && ...\<close> reads a property.\<close>

fun truthy :: "js_value \<Rightarrow> bool" where
  "truthy JUndefined = False"
| "truthy JNull = False"
| "truthy (JBool b) = b"
| "truthy (JNum n) = (n \<noteq> 0)"
| "truthy (JStr s) = (s \<noteq> [])"
| "truthy (JObj kvs) = True"

text \<open>
  The exceptions of the source: \<^verbatim>\<open>VoterException\<close> (the denial, a
  \<^verbatim>\<open>ForbiddenException\<close>), the plain \<^verbatim>\<open>Error\<close> and \<^verbatim>\<open>TypeError\<close>.
  Each carries its message. A throwing (or rejecting) call is the left summand.
\<close>

datatype exn =
    VoterException string
  | Error string
  | TypeError string

fun isDenial :: "exn \<Rightarrow> bool" where
  "isDenial (VoterException m) = True"
| "isDenial (Error m) = False"
| "isDenial (TypeError m) = False"

text \<open>
  What an evaluation does besides returning is recorded as a list of events, in
  the order in which the calls happen. The number in an event is the position
  (from 0) of the rule in the metadata array the loop runs over.
\<close>

datatype phase = Pre | Post

datatype event =
    BuildContext
  | StaticMethodCalled phase nat
  | VoterResolved phase nat
  | SupportsCalled nat
  | VoterMethodCalled phase nat
  | HandlerCalled

type_synonym 'a traced = "event list \<times> (exn + 'a)"

text \<open>
  Sequencing of two traced computations: the second one runs only when the
  first one returned, and its events come after the events of the first.
\<close>

definition andThen :: "'a traced \<Rightarrow> ('a \<Rightarrow> 'b traced) \<Rightarrow> 'b traced" where
  "andThen m k =
     (case snd m of
        Inl e \<Rightarrow> (fst m, Inl e)
      | Inr x \<Rightarrow> (fst m @ fst (k x), snd (k x)))"

section \<open>The data model\<close>

text \<open>\<^verbatim>\<open>RequestWithUser\<close>: every field is optional in the source.\<close>

record RequestWithUser =
  user :: js_value
  params :: "(string \<rightharpoonup> js_value) option"
  query :: "(string \<rightharpoonup> js_value) option"
  body :: "(string \<rightharpoonup> js_value) option"

text \<open>
  The handler function \<^verbatim>\<open>context.getHandler()\<close>: its identity (the key of
  the reflection metadata) and its \<^verbatim>\<open>name\<close>.
\<close>

record HandlerFn =
  fn_id :: nat
  fn_name :: string

text \<open>
  What \<^verbatim>\<open>GqlExecutionContext.create(context)\<close> gives: \<^verbatim>\<open>getContext().req\<close>,
  \<^verbatim>\<open>getArgs()\<close>, and of \<^verbatim>\<open>getInfo()\<close> the \<^verbatim>\<open>fieldName\<close> and
  \<^verbatim>\<open>operation.operation\<close>.
\<close>

record GqlExecutionContext =
  gql_req :: RequestWithUser
  gql_args :: "string \<rightharpoonup> js_value"
  fieldName :: string
  operation :: string

text \<open>
  The \<^verbatim>\<open>ExecutionContext\<close> of the host. \<open>graphql\<close> is \<open>None\<close> when
  \<^verbatim>\<open>require('@nestjs/graphql')\<close> throws.
\<close>

record ExecutionContext =
  getType :: string
  getHandler :: HandlerFn
  httpRequest :: RequestWithUser
  graphql :: "GqlExecutionContext option"

text \<open>
  Modelled from the spec: the file \<^verbatim>\<open>models/operation-type.enum.ts\<close> is
  not among the sources. The enum has the four members the interceptor names;
  their values are the strings the README gives for \<^verbatim>\<open>operationType\<close>
  (\<^verbatim>\<open>'query' | 'mutation' | 'subscription' | 'http'\<close>).
\<close>

datatype OperationType = HTTP | QUERY | MUTATION | SUBSCRIPTION

fun OperationType_value :: "OperationType \<Rightarrow> string" where
  "OperationType_value HTTP = ''http''"
| "OperationType_value QUERY = ''query''"
| "OperationType_value MUTATION = ''mutation''"
| "OperationType_value SUBSCRIPTION = ''subscription''"

text \<open>
  \<^verbatim>\<open>VoterContext\<close>. At run time \<open>operationType\<close> holds the string that
  was read from the request. The field \<^verbatim>\<open>context\<close> of the source is
  \<open>executionContext\<close> here.
\<close>

record VoterContext =
  data :: js_value
  args :: "string \<rightharpoonup> js_value"
  auth :: js_value
  executionContext :: ExecutionContext
  methodName :: string
  operationType :: string

text \<open>
  A voter instance is an object: a finite map from property names to property
  values, as the \<^verbatim>\<open>in\<close> operator and \<^verbatim>\<open>voter[methodName]\<close> see it. A
  property is a function or something else. A function of a voter is called
  either with the produced data (\<^verbatim>\<open>supports\<close>) or with the voter context
  (a decision method).
\<close>

datatype call_arg = Data js_value | Ctx VoterContext

datatype js_property =
    Function "call_arg \<Rightarrow> exn + bool"
  | NonFunction js_value

type_synonym voter = "string \<rightharpoonup> js_property"

text \<open>
  A voter class: its \<^verbatim>\<open>name\<close> and what \<^verbatim>\<open>new voterClass()\<close> gives.
\<close>

record VoterClass =
  className :: string
  construct :: "exn + voter"

text \<open>
  \<^verbatim>\<open>PreAuthVoterMetadata\<close> and \<^verbatim>\<open>PostAuthVoterMetadata\<close> have the same
  three optional fields. The field \<^verbatim>\<open>methodName\<close> of the source is
  \<open>voterMethodName\<close> here, since the voter context has a field of that name
  too.
\<close>

record VoterMetadata =
  voterClass :: "VoterClass option"
  voterMethodName :: "string option"
  staticMethod :: "(VoterContext \<Rightarrow> exn + bool) option"

type_synonym PreAuthVoterMetadata = VoterMetadata
type_synonym PostAuthVoterMetadata = VoterMetadata

text \<open>
  Modelled from the spec: the file \<^verbatim>\<open>constants/voter.constants.ts\<close> is not
  among the sources. The two metadata keys are taken to be distinct, one per
  phase, as the spec's registry has one list per operation and phase.
\<close>

datatype metadata_key = PRE_AUTH_VOTER_METADATA | POST_AUTH_VOTER_METADATA

text \<open>
  The reflection metadata: for a key and a handler function, the array that
  was defined, or nothing (\<^verbatim>\<open>undefined\<close>).
\<close>

type_synonym registry = "metadata_key \<times> HandlerFn \<rightharpoonup> VoterMetadata list"

text \<open>
  The interceptor's two collaborators: the reflector reads the registry, and
  \<^verbatim>\<open>moduleRef.get(voterClass, { strict: false })\<close> gives an instance or
  throws (\<open>None\<close>).
\<close>

record VoterInterceptor =
  reflector :: registry
  moduleRef :: "VoterClass \<Rightarrow> voter option"

text \<open>
  \<^verbatim>\<open>next.handle()\<close>, subscribed to: the handler's output, or the error it
  raises.
\<close>

record CallHandler =
  handle :: "exn + js_value"

section \<open>Registration: the decorators\<close>

text \<open>
  The argument of \<^verbatim>\<open>PreAuthVoter\<close> and \<^verbatim>\<open>PostAuthVoter\<close>: a function
  value with a \<^verbatim>\<open>prototype\<close> (a class) or one without (an arrow function).
\<close>

datatype voterClassOrMethod =
    Constructor VoterClass
  | ArrowFunction "VoterContext \<Rightarrow> exn + bool"

definition existingMetadata :: "registry \<Rightarrow> metadata_key \<Rightarrow> HandlerFn \<Rightarrow> VoterMetadata list" where
  "existingMetadata reg key target =
     (case reg (key, target) of None \<Rightarrow> [] | Some ms \<Rightarrow> ms)"

definition classOrMethodMetadata :: "voterClassOrMethod \<Rightarrow> VoterMetadata" where
  "classOrMethodMetadata x =
     (case x of
        Constructor c \<Rightarrow>
          \<lparr>voterClass = Some c, voterMethodName = Some ''vote'', staticMethod = None\<rparr>
      | ArrowFunction f \<Rightarrow>
          \<lparr>voterClass = None, voterMethodName = None, staticMethod = Some f\<rparr>)"

definition PreAuthVoter :: "voterClassOrMethod \<Rightarrow> HandlerFn \<Rightarrow> registry \<Rightarrow> registry" where
  "PreAuthVoter x target reg =
     reg((PRE_AUTH_VOTER_METADATA, target) \<mapsto>
       existingMetadata reg PRE_AUTH_VOTER_METADATA target @ [classOrMethodMetadata x])"

definition PreAuthVoterMethod :: "VoterClass \<Rightarrow> string \<Rightarrow> HandlerFn \<Rightarrow> registry \<Rightarrow> registry" where
  "PreAuthVoterMethod c m target reg =
     reg((PRE_AUTH_VOTER_METADATA, target) \<mapsto>
       existingMetadata reg PRE_AUTH_VOTER_METADATA target @
         [\<lparr>voterClass = Some c, voterMethodName = Some m, staticMethod = None\<rparr>])"

definition PostAuthVoter :: "voterClassOrMethod \<Rightarrow> HandlerFn \<Rightarrow> registry \<Rightarrow> registry" where
  "PostAuthVoter x target reg =
     reg((POST_AUTH_VOTER_METADATA, target) \<mapsto>
       existingMetadata reg POST_AUTH_VOTER_METADATA target @ [classOrMethodMetadata x])"

definition PostAuthVoterMethod :: "VoterClass \<Rightarrow> string \<Rightarrow> HandlerFn \<Rightarrow> registry \<Rightarrow> registry" where
  "PostAuthVoterMethod c m target reg =
     reg((POST_AUTH_VOTER_METADATA, target) \<mapsto>
       existingMetadata reg POST_AUTH_VOTER_METADATA target @
         [\<lparr>voterClass = Some c, voterMethodName = Some m, staticMethod = None\<rparr>])"

section \<open>The interceptor\<close>

subsection \<open>Normalising the request\<close>

definition gqlNotInstalled :: exn where
  "gqlNotInstalled =
     Error (''GraphQL context detected but @nestjs/graphql is not installed. '' @
            ''Please install it with: npm install @nestjs/graphql'')"

definition getGqlExecutionContext :: "ExecutionContext \<Rightarrow> exn + GqlExecutionContext" where
  "getGqlExecutionContext c =
     (case graphql c of None \<Rightarrow> Inl gqlNotInstalled | Some g \<Rightarrow> Inr g)"

definition getRequest :: "ExecutionContext \<Rightarrow> exn + RequestWithUser" where
  "getRequest c =
     (if getType c = OperationType_value HTTP then Inr (httpRequest c)
      else (case getGqlExecutionContext c of
              Inl e \<Rightarrow> Inl e
            | Inr g \<Rightarrow> Inr (gql_req g)))"

text \<open>Spreading an optional object: \<^verbatim>\<open>...undefined\<close> adds nothing.\<close>

definition spread :: "(string \<rightharpoonup> js_value) option \<Rightarrow> (string \<rightharpoonup> js_value)" where
  "spread m = (case m of None \<Rightarrow> Map.empty | Some f \<Rightarrow> f)"

definition getMethodArguments :: "ExecutionContext \<Rightarrow> exn + (string \<rightharpoonup> js_value)" where
  "getMethodArguments c =
     (if getType c = ''http'' then
        (let request = httpRequest c
         in Inr (spread (params request) ++ spread (query request) ++ spread (body request)))
      else (case getGqlExecutionContext c of
              Inl e \<Rightarrow> Inl e
            | Inr g \<Rightarrow> Inr (gql_args g)))"

definition getMethodContext :: "ExecutionContext \<Rightarrow> exn + (string \<times> string)" where
  "getMethodContext c =
     (if getType c = OperationType_value HTTP then
        Inr (fn_name (getHandler c), OperationType_value HTTP)
      else (case getGqlExecutionContext c of
              Inl e \<Rightarrow> Inl e
            | Inr g \<Rightarrow>
                (let operationType = operation g
                 in if operationType \<noteq> OperationType_value QUERY \<and>
                       operationType \<noteq> OperationType_value MUTATION \<and>
                       operationType \<noteq> OperationType_value SUBSCRIPTION
                    then Inl (Error (''Unknown GraphQL operation type: '' @ operationType))
                    else Inr (fieldName g, operationType))))"

text \<open>
  Lines 53 to 64 of \<^verbatim>\<open>intercept\<close>: the request, the arguments and the
  method context are read in this order, then the voter context is built with
  \<^verbatim>\<open>data: null\<close>.
\<close>

definition buildVoterContext :: "ExecutionContext \<Rightarrow> exn + VoterContext" where
  "buildVoterContext c =
     (case getRequest c of
        Inl e \<Rightarrow> Inl e
      | Inr req \<Rightarrow>
          (case getMethodArguments c of
             Inl e \<Rightarrow> Inl e
           | Inr as \<Rightarrow>
               (case getMethodContext c of
                  Inl e \<Rightarrow> Inl e
                | Inr (mn, ot) \<Rightarrow>
                    Inr \<lparr>data = JNull, args = as, auth = user req, executionContext = c,
                         methodName = mn, operationType = ot\<rparr>)))"

subsection \<open>Resolving a voter and calling its method\<close>

definition getVoterInstance :: "(VoterClass \<Rightarrow> voter option) \<Rightarrow> VoterClass \<Rightarrow> exn + voter" where
  "getVoterInstance mr c = (case mr c of Some v \<Rightarrow> Inr v | None \<Rightarrow> construct c)"

text \<open>\<^verbatim>\<open>meta.methodName || 'vote'\<close>: the empty string is falsy too.\<close>

definition methodNameOrVote :: "string option \<Rightarrow> string" where
  "methodNameOrVote m =
     (case m of None \<Rightarrow> ''vote'' | Some s \<Rightarrow> if s = [] then ''vote'' else s)"

definition deniedBy :: "phase \<Rightarrow> string" where
  "deniedBy ph =
     (case ph of
        Pre \<Rightarrow> ''Pre-authorization denied by ''
      | Post \<Rightarrow> ''Post-authorization denied by '')"

definition accessDenied :: "phase \<Rightarrow> string" where
  "accessDenied ph =
     (case ph of
        Pre \<Rightarrow> ''Pre-authorization access denied''
      | Post \<Rightarrow> ''Post-authorization access denied'')"

text \<open>
  The tail of the voter-class branch, the same text in both loops but for the
  phase word of the message (lines 93 to 109 and 129 to 145): look the method
  up, check that it is a function, call it with the context, throw the denial
  when it returns false.
\<close>

definition callVoterMethod ::
  "phase \<Rightarrow> nat \<Rightarrow> VoterClass \<Rightarrow> voter \<Rightarrow> string option \<Rightarrow> VoterContext \<Rightarrow> unit traced" where
  "callVoterMethod ph i c v mn ctx =
     (let methodName = methodNameOrVote mn
      in (case v methodName of
            None \<Rightarrow>
              ([], Inl (Error (''Method '' @ methodName @ '' not found in '' @ className c)))
          | Some (NonFunction x) \<Rightarrow>
              ([], Inl (TypeError (methodName @ '' is not a function in '' @ className c)))
          | Some (Function method) \<Rightarrow>
              ([VoterMethodCalled ph i],
               (case method (Ctx ctx) of
                  Inl e \<Rightarrow> Inl e
                | Inr hasAccess \<Rightarrow>
                    if \<not> hasAccess
                    then Inl (VoterException (deniedBy ph @ className c @ ''.'' @ methodName))
                    else Inr ()))))"

text \<open>The static-method branch of both loops (lines 85 to 90 and 116 to 121).\<close>

definition callStaticMethod ::
  "phase \<Rightarrow> nat \<Rightarrow> (VoterContext \<Rightarrow> exn + bool) \<Rightarrow> VoterContext \<Rightarrow> unit traced" where
  "callStaticMethod ph i f ctx =
     ([StaticMethodCalled ph i],
      (case f ctx of
         Inl e \<Rightarrow> Inl e
       | Inr hasAccess \<Rightarrow>
           if \<not> hasAccess then Inl (VoterException (accessDenied ph)) else Inr ()))"

subsection \<open>The two loops\<close>

text \<open>One turn of the loop of \<^verbatim>\<open>executePreAuthVoters\<close>.\<close>

definition preAuthVoter :: "(VoterClass \<Rightarrow> voter option) \<Rightarrow> nat \<Rightarrow> VoterMetadata \<Rightarrow> VoterContext \<Rightarrow> unit traced" where
  "preAuthVoter mr i meta ctx =
     (case staticMethod meta of
        Some f \<Rightarrow> callStaticMethod Pre i f ctx
      | None \<Rightarrow>
          (case voterClass meta of
             Some c \<Rightarrow>
               andThen ([VoterResolved Pre i], getVoterInstance mr c)
                 (\<lambda>v. callVoterMethod Pre i c v (voterMethodName meta) ctx)
           | None \<Rightarrow> ([], Inr ())))"

fun executePreAuthVoters_from ::
  "(VoterClass \<Rightarrow> voter option) \<Rightarrow> nat \<Rightarrow> VoterMetadata list \<Rightarrow> VoterContext \<Rightarrow> unit traced" where
  "executePreAuthVoters_from mr i [] ctx = ([], Inr ())"
| "executePreAuthVoters_from mr i (meta # rest) ctx =
     andThen (preAuthVoter mr i meta ctx)
       (\<lambda>_. executePreAuthVoters_from mr (Suc i) rest ctx)"

definition executePreAuthVoters ::
  "(VoterClass \<Rightarrow> voter option) \<Rightarrow> VoterMetadata list \<Rightarrow> VoterContext \<Rightarrow> unit traced" where
  "executePreAuthVoters mr metadata ctx = executePreAuthVoters_from mr 0 metadata ctx"

text \<open>
  \<^verbatim>\<open>voter.supports && !voter.supports(context.data)\<close>: \<open>True\<close> means
  \<^verbatim>\<open>continue\<close>. Calling a truthy property that is no function is a
  \<^verbatim>\<open>TypeError\<close> of the language.
\<close>

definition supportsSkips :: "nat \<Rightarrow> voter \<Rightarrow> VoterContext \<Rightarrow> bool traced" where
  "supportsSkips i v ctx =
     (case v ''supports'' of
        None \<Rightarrow> ([], Inr False)
      | Some (NonFunction x) \<Rightarrow>
          if truthy x then ([], Inl (TypeError ''voter.supports is not a function''))
          else ([], Inr False)
      | Some (Function supports) \<Rightarrow>
          ([SupportsCalled i],
           (case supports (Data (data ctx)) of
              Inl e \<Rightarrow> Inl e
            | Inr b \<Rightarrow> Inr (\<not> b))))"

text \<open>One turn of the loop of \<^verbatim>\<open>executePostAuthVoters\<close>.\<close>

definition postAuthVoter :: "(VoterClass \<Rightarrow> voter option) \<Rightarrow> nat \<Rightarrow> VoterMetadata \<Rightarrow> VoterContext \<Rightarrow> unit traced" where
  "postAuthVoter mr i meta ctx =
     (case staticMethod meta of
        Some f \<Rightarrow> callStaticMethod Post i f ctx
      | None \<Rightarrow>
          (case voterClass meta of
             Some c \<Rightarrow>
               andThen ([VoterResolved Post i], getVoterInstance mr c)
                 (\<lambda>v. andThen (supportsSkips i v ctx)
                    (\<lambda>skip. if skip then ([], Inr ())
                            else callVoterMethod Post i c v (voterMethodName meta) ctx))
           | None \<Rightarrow> ([], Inr ())))"

fun executePostAuthVoters_from ::
  "(VoterClass \<Rightarrow> voter option) \<Rightarrow> nat \<Rightarrow> VoterMetadata list \<Rightarrow> VoterContext \<Rightarrow> unit traced" where
  "executePostAuthVoters_from mr i [] ctx = ([], Inr ())"
| "executePostAuthVoters_from mr i (meta # rest) ctx =
     andThen (postAuthVoter mr i meta ctx)
       (\<lambda>_. executePostAuthVoters_from mr (Suc i) rest ctx)"

definition executePostAuthVoters ::
  "(VoterClass \<Rightarrow> voter option) \<Rightarrow> VoterMetadata list \<Rightarrow> VoterContext \<Rightarrow> unit traced" where
  "executePostAuthVoters mr metadata ctx = executePostAuthVoters_from mr 0 metadata ctx"

subsection \<open>\<^verbatim>\<open>intercept\<close>\<close>

text \<open>
  The observable \<^verbatim>\<open>next.handle()\<close> is taken at its subscription: the
  handler runs and gives its output or its error. A metadata read that gives
  \<^verbatim>\<open>undefined\<close> is \<open>None\<close>; an array, also the empty one, is truthy.
\<close>

definition callHandler :: "CallHandler \<Rightarrow> js_value traced" where
  "callHandler next = ([HandlerCalled], handle next)"

definition intercept :: "VoterInterceptor \<Rightarrow> ExecutionContext \<Rightarrow> CallHandler \<Rightarrow> js_value traced" where
  "intercept this c next =
     (let preAuthMetadata = reflector this (PRE_AUTH_VOTER_METADATA, getHandler c);
          postAuthMetadata = reflector this (POST_AUTH_VOTER_METADATA, getHandler c)
      in if Option.is_none preAuthMetadata \<and> Option.is_none postAuthMetadata then callHandler next
         else
           andThen ([BuildContext], buildVoterContext c)
             (\<lambda>voterContext.
                andThen
                  (case preAuthMetadata of
                     Some pre \<Rightarrow> executePreAuthVoters (moduleRef this) pre voterContext
                   | None \<Rightarrow> ([], Inr ()))
                  (\<lambda>_. case postAuthMetadata of
                          Some post \<Rightarrow>
                            andThen (callHandler next)
                              (\<lambda>d. andThen
                                      (executePostAuthVoters (moduleRef this) post
                                         (voterContext\<lparr>data := d\<rparr>))
                                      (\<lambda>_. ([], Inr d)))
                        | None \<Rightarrow> callHandler next)))"

section \<open>Notions the properties are stated with\<close>

subsection \<open>Sequences of registration calls\<close>

text \<open>
  A registration call is the application of one of the four decorators to a
  handler function. A registry is built by a sequence of such calls, each one
  applied to the registry the earlier ones left.
\<close>

datatype decorator =
    PreAuthVoterDecorator voterClassOrMethod
  | PreAuthVoterMethodDecorator VoterClass string
  | PostAuthVoterDecorator voterClassOrMethod
  | PostAuthVoterMethodDecorator VoterClass string

fun applyDecorator :: "decorator \<Rightarrow> HandlerFn \<Rightarrow> registry \<Rightarrow> registry" where
  "applyDecorator (PreAuthVoterDecorator x) target reg = PreAuthVoter x target reg"
| "applyDecorator (PreAuthVoterMethodDecorator c m) target reg = PreAuthVoterMethod c m target reg"
| "applyDecorator (PostAuthVoterDecorator x) target reg = PostAuthVoter x target reg"
| "applyDecorator (PostAuthVoterMethodDecorator c m) target reg = PostAuthVoterMethod c m target reg"

fun registerAll :: "(decorator \<times> HandlerFn) list \<Rightarrow> registry \<Rightarrow> registry" where
  "registerAll [] reg = reg"
| "registerAll ((d, target) # calls) reg = registerAll calls (applyDecorator d target reg)"

text \<open>The phase a decorator registers for, and the descriptor it appends.\<close>

fun decoratorKey :: "decorator \<Rightarrow> metadata_key" where
  "decoratorKey (PreAuthVoterDecorator x) = PRE_AUTH_VOTER_METADATA"
| "decoratorKey (PreAuthVoterMethodDecorator c m) = PRE_AUTH_VOTER_METADATA"
| "decoratorKey (PostAuthVoterDecorator x) = POST_AUTH_VOTER_METADATA"
| "decoratorKey (PostAuthVoterMethodDecorator c m) = POST_AUTH_VOTER_METADATA"

fun decoratorMetadata :: "decorator \<Rightarrow> VoterMetadata" where
  "decoratorMetadata (PreAuthVoterDecorator x) = classOrMethodMetadata x"
| "decoratorMetadata (PreAuthVoterMethodDecorator c m) =
     \<lparr>voterClass = Some c, voterMethodName = Some m, staticMethod = None\<rparr>"
| "decoratorMetadata (PostAuthVoterDecorator x) = classOrMethodMetadata x"
| "decoratorMetadata (PostAuthVoterMethodDecorator c m) =
     \<lparr>voterClass = Some c, voterMethodName = Some m, staticMethod = None\<rparr>"

text \<open>
  The descriptors that a sequence of calls registers for one key and one
  handler, in the order of the calls.
\<close>

fun registeredBy :: "(decorator \<times> HandlerFn) list \<Rightarrow> metadata_key \<Rightarrow> HandlerFn \<Rightarrow> VoterMetadata list" where
  "registeredBy [] key h = []"
| "registeredBy ((d, target) # calls) key h =
     (if decoratorKey d = key \<and> target = h
      then decoratorMetadata d # registeredBy calls key h
      else registeredBy calls key h)"

subsection \<open>Decisions\<close>

text \<open>The loop of a phase.\<close>

definition executeVoters ::
  "phase \<Rightarrow> (VoterClass \<Rightarrow> voter option) \<Rightarrow> VoterMetadata list \<Rightarrow> VoterContext \<Rightarrow> unit traced" where
  "executeVoters ph mr metadata ctx =
     (case ph of
        Pre \<Rightarrow> executePreAuthVoters mr metadata ctx
      | Post \<Rightarrow> executePostAuthVoters mr metadata ctx)"

text \<open>
  What the decision function of a rule returns in a context: \<open>Some b\<close> when
  the rule has a decision function (its inline function, or the named method
  of the resolved voter), the evaluation of the rule calls it, and it returns
  \<open>b\<close>; \<open>None\<close> when there is no such function, when the post-phase does
  not get to it (\<^verbatim>\<open>supports\<close> throws or skips the rule), or when it
  throws.
\<close>

definition ruleReturns ::
  "phase \<Rightarrow> (VoterClass \<Rightarrow> voter option) \<Rightarrow> VoterMetadata \<Rightarrow> VoterContext \<Rightarrow> bool option" where
  "ruleReturns ph mr meta ctx =
     (case staticMethod meta of
        Some f \<Rightarrow> (case f ctx of Inl e \<Rightarrow> None | Inr b \<Rightarrow> Some b)
      | None \<Rightarrow>
          (case voterClass meta of
             None \<Rightarrow> None
           | Some c \<Rightarrow>
               (case getVoterInstance mr c of
                  Inl e \<Rightarrow> None
                | Inr v \<Rightarrow>
                    if ph = Post \<and> snd (supportsSkips 0 v ctx) \<noteq> Inr False then None
                    else
                      (case v (methodNameOrVote (voterMethodName meta)) of
                         Some (Function method) \<Rightarrow>
                           (case method (Ctx ctx) of Inl e \<Rightarrow> None | Inr b \<Rightarrow> Some b)
                       | Some (NonFunction x) \<Rightarrow> None
                       | None \<Rightarrow> None))))"

text \<open>
  The events that are calls of a decision function, the call of the decision
  function of the rule at position \<open>j\<close>, and the rule an event belongs to.
\<close>

fun isDecisionCall :: "event \<Rightarrow> bool" where
  "isDecisionCall (StaticMethodCalled ph j) = True"
| "isDecisionCall (VoterMethodCalled ph j) = True"
| "isDecisionCall BuildContext = False"
| "isDecisionCall (VoterResolved ph j) = False"
| "isDecisionCall (SupportsCalled j) = False"
| "isDecisionCall HandlerCalled = False"

definition decisionCall :: "phase \<Rightarrow> VoterMetadata \<Rightarrow> nat \<Rightarrow> event" where
  "decisionCall ph meta j =
     (case staticMethod meta of
        Some f \<Rightarrow> StaticMethodCalled ph j
      | None \<Rightarrow> VoterMethodCalled ph j)"

fun ruleOf :: "event \<Rightarrow> nat option" where
  "ruleOf (StaticMethodCalled ph j) = Some j"
| "ruleOf (VoterResolved ph j) = Some j"
| "ruleOf (SupportsCalled j) = Some j"
| "ruleOf (VoterMethodCalled ph j) = Some j"
| "ruleOf BuildContext = None"
| "ruleOf HandlerCalled = None"

text \<open>
  The phase an event belongs to, and the phase a metadata key stands for.
\<close>

fun phaseOf :: "event \<Rightarrow> phase option" where
  "phaseOf (StaticMethodCalled ph j) = Some ph"
| "phaseOf (VoterResolved ph j) = Some ph"
| "phaseOf (SupportsCalled j) = Some Post"
| "phaseOf (VoterMethodCalled ph j) = Some ph"
| "phaseOf BuildContext = None"
| "phaseOf HandlerCalled = None"

fun keyPhase :: "metadata_key \<Rightarrow> phase" where
  "keyPhase PRE_AUTH_VOTER_METADATA = Pre"
| "keyPhase POST_AUTH_VOTER_METADATA = Post"

text \<open>
  The positions of the rules whose decision function is called, in the order
  of the calls.
\<close>

fun decisionIndices :: "event list \<Rightarrow> nat list" where
  "decisionIndices [] = []"
| "decisionIndices (ev # es) =
     (if isDecisionCall ev
      then (case ruleOf ev of Some j \<Rightarrow> j # decisionIndices es | None \<Rightarrow> decisionIndices es)
      else decisionIndices es)"

text \<open>
  The merge the spec describes for a unary request: a key is looked up in the
  body first, then in the query parameters, then in the path parameters.
\<close>

definition laterSourceWins ::
  "(string \<rightharpoonup> js_value) \<Rightarrow> (string \<rightharpoonup> js_value) \<Rightarrow> (string \<rightharpoonup> js_value) \<Rightarrow> (string \<rightharpoonup> js_value)" where
  "laterSourceWins pathParams queryParams bodyFields k =
     (case bodyFields k of
        Some v \<Rightarrow> Some v
      | None \<Rightarrow>
          (case queryParams k of
             Some v \<Rightarrow> Some v
           | None \<Rightarrow> pathParams k))"

subsection \<open>Concrete inputs\<close>

definition allowRule :: VoterMetadata where
  "allowRule = \<lparr>voterClass = None, voterMethodName = None, staticMethod = Some (\<lambda>ctx. Inr True)\<rparr>"

definition denyRule :: VoterMetadata where
  "denyRule = \<lparr>voterClass = None, voterMethodName = None, staticMethod = Some (\<lambda>ctx. Inr False)\<rparr>"

definition emptyRule :: VoterMetadata where
  "emptyRule = \<lparr>voterClass = None, voterMethodName = None, staticMethod = None\<rparr>"

text \<open>
  A voter as in the tests: \<^verbatim>\<open>supports\<close> accepts objects only,
  \<^verbatim>\<open>vote\<close> and \<^verbatim>\<open>canCreate\<close> always refuse, and \<^verbatim>\<open>label\<close> is a
  property that is no function.
\<close>

definition testVoter :: voter where
  "testVoter =
     [''supports'' \<mapsto> Function (\<lambda>a. case a of Data (JObj kvs) \<Rightarrow> Inr True | _ \<Rightarrow> Inr False),
      ''vote'' \<mapsto> Function (\<lambda>a. Inr False),
      ''canCreate'' \<mapsto> Function (\<lambda>a. Inr False),
      ''label'' \<mapsto> NonFunction (JStr ''test'')]"

definition TestVoter :: VoterClass where
  "TestVoter = \<lparr>className = ''TestVoter'', construct = Inr testVoter\<rparr>"

definition getUser :: HandlerFn where
  "getUser = \<lparr>fn_id = 0, fn_name = ''getUser''\<rparr>"

definition httpContext :: ExecutionContext where
  "httpContext =
     \<lparr>getType = ''http'', getHandler = getUser,
      httpRequest =
        \<lparr>user = JObj [(''id'', JStr ''u1'')],
         params = Some [''id'' \<mapsto> JStr ''path'', ''p'' \<mapsto> JNum 1],
         query = Some [''id'' \<mapsto> JStr ''query'', ''q'' \<mapsto> JNum 2],
         body = Some [''id'' \<mapsto> JStr ''body'']\<rparr>,
      graphql = None\<rparr>"

definition gqlContext :: ExecutionContext where
  "gqlContext =
     \<lparr>getType = ''graphql'', getHandler = getUser,
      httpRequest = \<lparr>user = JUndefined, params = None, query = None, body = None\<rparr>,
      graphql =
        Some \<lparr>gql_req = \<lparr>user = JObj [(''id'', JStr ''u1'')], params = None, query = None, body = None\<rparr>,
              gql_args = [''id'' \<mapsto> JStr ''1''],
              fieldName = ''user'',
              operation = ''introspection''\<rparr>\<rparr>"

definition nextHandler :: CallHandler where
  "nextHandler = \<lparr>handle = Inr (JStr ''output'')\<rparr>"

definition interceptorWith :: "registry \<Rightarrow> VoterInterceptor" where
  "interceptorWith reg = \<lparr>reflector = reg, moduleRef = (\<lambda>c. None)\<rparr>"

definition createUser :: HandlerFn where
  "createUser = \<lparr>fn_id = 1, fn_name = ''createUser''\<rparr>"

definition voterContext0 :: VoterContext where
  "voterContext0 =
     \<lparr>data = JNull, args = [''id'' \<mapsto> JStr ''1''], auth = JObj [(''id'', JStr ''u1'')],
      executionContext = httpContext, methodName = ''getUser'', operationType = ''http''\<rparr>"

text \<open>Rules that name the test voter, and one that carries both kinds.\<close>

definition voteRule :: VoterMetadata where
  "voteRule = \<lparr>voterClass = Some TestVoter, voterMethodName = Some ''vote'', staticMethod = None\<rparr>"

definition canCreateRule :: VoterMetadata where
  "canCreateRule =
     \<lparr>voterClass = Some TestVoter, voterMethodName = Some ''canCreate'', staticMethod = None\<rparr>"

definition missingMethodRule :: VoterMetadata where
  "missingMethodRule =
     \<lparr>voterClass = Some TestVoter, voterMethodName = Some ''nonExistentMethod'',
      staticMethod = None\<rparr>"

definition labelRule :: VoterMetadata where
  "labelRule = \<lparr>voterClass = Some TestVoter, voterMethodName = Some ''label'', staticMethod = None\<rparr>"

definition bothRule :: VoterMetadata where
  "bothRule =
     \<lparr>voterClass = Some TestVoter, voterMethodName = Some ''vote'',
      staticMethod = Some (\<lambda>ctx. Inr True)\<rparr>"

text \<open>
  A voter whose \<^verbatim>\<open>vote\<close> always allows, and a rule that carries this
  voter class together with an inline function that refuses.
\<close>

definition allowingVoter :: voter where
  "allowingVoter = [''vote'' \<mapsto> Function (\<lambda>a. Inr True)]"

definition AllowingVoter :: VoterClass where
  "AllowingVoter = \<lparr>className = ''AllowingVoter'', construct = Inr allowingVoter\<rparr>"

definition bothDenyRule :: VoterMetadata where
  "bothDenyRule =
     \<lparr>voterClass = Some AllowingVoter, voterMethodName = Some ''vote'',
      staticMethod = Some (\<lambda>ctx. Inr False)\<rparr>"

section \<open>Auxiliary facts\<close>

subsection \<open>Sequencing\<close>

lemma andThen_Inl [simp]: "andThen (es, Inl e) k = (es, Inl e)"
  by (simp add: andThen_def)

lemma andThen_Inr [simp]: "andThen (es, Inr x) k = (es @ fst (k x), snd (k x))"
  by (simp add: andThen_def)

lemma snd_andThen: "snd (andThen m k) = (case snd m of Inl e \<Rightarrow> Inl e | Inr x \<Rightarrow> snd (k x))"
  by (simp add: andThen_def split: sum.splits)

lemma fst_andThen: "fst (andThen m k) = (case snd m of Inl e \<Rightarrow> fst m | Inr x \<Rightarrow> fst m @ fst (k x))"
  by (simp add: andThen_def split: sum.splits)

lemma andThen_assoc: "andThen (andThen m k) l = andThen m (\<lambda>x. andThen (k x) l)"
  by (simp add: andThen_def split: sum.splits)

subsection \<open>The loops on an appended array\<close>

lemma executePreAuthVoters_from_append:
  "executePreAuthVoters_from mr i (xs @ ys) ctx =
     andThen (executePreAuthVoters_from mr i xs ctx)
       (\<lambda>_. executePreAuthVoters_from mr (i + length xs) ys ctx)"
  by (induction xs arbitrary: i) (simp_all add: andThen_assoc)

lemma executePostAuthVoters_from_append:
  "executePostAuthVoters_from mr i (xs @ ys) ctx =
     andThen (executePostAuthVoters_from mr i xs ctx)
       (\<lambda>_. executePostAuthVoters_from mr (i + length xs) ys ctx)"
  by (induction xs arbitrary: i) (simp_all add: andThen_assoc)

subsection \<open>Every event of a loop belongs to a rule of the array\<close>

lemma ruleOf_callStaticMethod:
  "ev \<in> set (fst (callStaticMethod ph i f ctx)) \<Longrightarrow> ruleOf ev = Some i"
  by (simp add: callStaticMethod_def)

lemma ruleOf_callVoterMethod:
  "ev \<in> set (fst (callVoterMethod ph i c v mn ctx)) \<Longrightarrow> ruleOf ev = Some i"
  by (auto simp add: callVoterMethod_def Let_def split: option.splits js_property.splits)

lemma ruleOf_supportsSkips:
  "ev \<in> set (fst (supportsSkips i v ctx)) \<Longrightarrow> ruleOf ev = Some i"
  by (auto simp add: supportsSkips_def split: option.splits js_property.splits if_splits)

lemma ruleOf_preAuthVoter:
  "ev \<in> set (fst (preAuthVoter mr i meta ctx)) \<Longrightarrow> ruleOf ev = Some i"
  by (auto simp add: preAuthVoter_def fst_andThen
      split: option.splits sum.splits dest: ruleOf_callStaticMethod ruleOf_callVoterMethod)

lemma ruleOf_postAuthVoter:
  "ev \<in> set (fst (postAuthVoter mr i meta ctx)) \<Longrightarrow> ruleOf ev = Some i"
  by (auto simp add: postAuthVoter_def fst_andThen
      split: option.splits sum.splits if_splits
      dest: ruleOf_callStaticMethod ruleOf_callVoterMethod ruleOf_supportsSkips)

lemma ruleOf_executePreAuthVoters_from:
  "ev \<in> set (fst (executePreAuthVoters_from mr i ms ctx)) \<Longrightarrow>
     \<exists>j. ruleOf ev = Some j \<and> i \<le> j \<and> j < i + length ms"
proof (induction ms arbitrary: i)
  case Nil
  then show ?case by simp
next
  case (Cons meta rest)
  from Cons.prems
  consider "ev \<in> set (fst (preAuthVoter mr i meta ctx))"
    | "ev \<in> set (fst (executePreAuthVoters_from mr (Suc i) rest ctx))"
    by (auto simp add: fst_andThen split: sum.splits)
  then show ?case
  proof cases
    case 1
    then show ?thesis by (auto dest: ruleOf_preAuthVoter)
  next
    case 2
    from Cons.IH [OF 2] show ?thesis by auto
  qed
qed

lemma ruleOf_executePostAuthVoters_from:
  "ev \<in> set (fst (executePostAuthVoters_from mr i ms ctx)) \<Longrightarrow>
     \<exists>j. ruleOf ev = Some j \<and> i \<le> j \<and> j < i + length ms"
proof (induction ms arbitrary: i)
  case Nil
  then show ?case by simp
next
  case (Cons meta rest)
  from Cons.prems
  consider "ev \<in> set (fst (postAuthVoter mr i meta ctx))"
    | "ev \<in> set (fst (executePostAuthVoters_from mr (Suc i) rest ctx))"
    by (auto simp add: fst_andThen split: sum.splits)
  then show ?case
  proof cases
    case 1
    then show ?thesis by (auto dest: ruleOf_postAuthVoter)
  next
    case 2
    from Cons.IH [OF 2] show ?thesis by auto
  qed
qed

subsection \<open>What a sequence of registration calls leaves in the registry\<close>

lemma applyDecorator_eq:
  "applyDecorator d target reg =
     reg((decoratorKey d, target) \<mapsto>
       existingMetadata reg (decoratorKey d) target @ [decoratorMetadata d])"
  by (cases d)
     (simp_all add: PreAuthVoter_def PreAuthVoterMethod_def PostAuthVoter_def PostAuthVoterMethod_def)

lemma existingMetadata_applyDecorator:
  "existingMetadata (applyDecorator d target reg) key h =
     (if decoratorKey d = key \<and> target = h
      then existingMetadata reg key h @ [decoratorMetadata d]
      else existingMetadata reg key h)"
  by (auto simp add: applyDecorator_eq existingMetadata_def)

lemma lookup_applyDecorator:
  "applyDecorator d target reg (key, h) =
     (if decoratorKey d = key \<and> target = h
      then Some (existingMetadata reg key h @ [decoratorMetadata d])
      else reg (key, h))"
  by (auto simp add: applyDecorator_eq)

lemma lookup_registerAll:
  "registerAll calls reg (key, h) =
     (if registeredBy calls key h = [] then reg (key, h)
      else Some (existingMetadata reg key h @ registeredBy calls key h))"
proof (induction calls arbitrary: reg)
  case Nil
  show ?case by simp
next
  case (Cons call calls)
  obtain d target where call: "call = (d, target)" by (cases call)
  show ?case
    unfolding call
    by (simp add: Cons.IH lookup_applyDecorator existingMetadata_applyDecorator)
qed

subsection \<open>Single steps\<close>

lemma intercept_no_metadata:
  assumes "reflector this (PRE_AUTH_VOTER_METADATA, getHandler c) = None"
    and "reflector this (POST_AUTH_VOTER_METADATA, getHandler c) = None"
  shows "intercept this c next = ([HandlerCalled], handle next)"
  using assms by (simp add: intercept_def callHandler_def)

lemma map_add_laterSourceWins: "p ++ q ++ b = laterSourceWins p q b"
  by (rule ext) (simp add: laterSourceWins_def map_add_def split: option.splits)

lemma postAuthVoter_unsupported:
  assumes "staticMethod meta = None" and "voterClass meta = Some c"
    and "getVoterInstance mr c = Inr v"
    and "v ''supports'' = Some (Function supports)"
    and "supports (Data (data ctx)) = Inr False"
  shows "postAuthVoter mr i meta ctx = ([VoterResolved Post i, SupportsCalled i], Inr ())"
  using assms by (simp add: postAuthVoter_def supportsSkips_def)

lemma postAuthVoter_allowRule:
  "postAuthVoter mr i allowRule ctx = ([StaticMethodCalled Post i], Inr ())"
  by (simp add: postAuthVoter_def allowRule_def callStaticMethod_def)

subsection \<open>The loops up to the rule that throws\<close>

lemma executePreAuthVoters_split:
  assumes "k < length metas"
  shows "executePreAuthVoters mr metas ctx =
     andThen (executePreAuthVoters mr (take k metas) ctx)
       (\<lambda>_. andThen (preAuthVoter mr k (metas ! k) ctx)
          (\<lambda>_. executePreAuthVoters_from mr (Suc k) (drop (Suc k) metas) ctx))"
proof -
  have "executePreAuthVoters mr metas ctx =
      executePreAuthVoters_from mr 0 (take k metas @ metas ! k # drop (Suc k) metas) ctx"
    using assms by (simp add: executePreAuthVoters_def id_take_nth_drop [symmetric])
  also have "\<dots> = andThen (executePreAuthVoters mr (take k metas) ctx)
       (\<lambda>_. andThen (preAuthVoter mr k (metas ! k) ctx)
          (\<lambda>_. executePreAuthVoters_from mr (Suc k) (drop (Suc k) metas) ctx))"
    using assms
    by (simp only: executePreAuthVoters_from_append executePreAuthVoters_def
        executePreAuthVoters_from.simps length_take min.absorb2 less_imp_le add_0)
  finally show ?thesis .
qed

lemma executePostAuthVoters_split:
  assumes "k < length metas"
  shows "executePostAuthVoters mr metas ctx =
     andThen (executePostAuthVoters mr (take k metas) ctx)
       (\<lambda>_. andThen (postAuthVoter mr k (metas ! k) ctx)
          (\<lambda>_. executePostAuthVoters_from mr (Suc k) (drop (Suc k) metas) ctx))"
proof -
  have "executePostAuthVoters mr metas ctx =
      executePostAuthVoters_from mr 0 (take k metas @ metas ! k # drop (Suc k) metas) ctx"
    using assms by (simp add: executePostAuthVoters_def id_take_nth_drop [symmetric])
  also have "\<dots> = andThen (executePostAuthVoters mr (take k metas) ctx)
       (\<lambda>_. andThen (postAuthVoter mr k (metas ! k) ctx)
          (\<lambda>_. executePostAuthVoters_from mr (Suc k) (drop (Suc k) metas) ctx))"
    using assms
    by (simp only: executePostAuthVoters_from_append executePostAuthVoters_def
        executePostAuthVoters_from.simps length_take min.absorb2 less_imp_le add_0)
  finally show ?thesis .
qed

lemma executePreAuthVoters_stops:
  assumes "k < length metas"
    and "snd (executePreAuthVoters mr (take k metas) ctx) = Inr ()"
    and "snd (preAuthVoter mr k (metas ! k) ctx) = Inl e"
  shows "executePreAuthVoters mr metas ctx =
     (fst (executePreAuthVoters mr (take k metas) ctx) @ fst (preAuthVoter mr k (metas ! k) ctx),
      Inl e)"
  using assms(2,3)
  by (simp add: executePreAuthVoters_split [OF assms(1)] andThen_def)

lemma executePostAuthVoters_stops:
  assumes "k < length metas"
    and "snd (executePostAuthVoters mr (take k metas) ctx) = Inr ()"
    and "snd (postAuthVoter mr k (metas ! k) ctx) = Inl e"
  shows "executePostAuthVoters mr metas ctx =
     (fst (executePostAuthVoters mr (take k metas) ctx) @ fst (postAuthVoter mr k (metas ! k) ctx),
      Inl e)"
  using assms(2,3)
  by (simp add: executePostAuthVoters_split [OF assms(1)] andThen_def)

lemma intercept_pre_throws:
  assumes "reflector this (PRE_AUTH_VOTER_METADATA, getHandler c) = Some metas"
    and "buildVoterContext c = Inr vc"
    and "snd (executePreAuthVoters (moduleRef this) metas vc) = Inl e"
  shows "intercept this c next =
     (BuildContext # fst (executePreAuthVoters (moduleRef this) metas vc), Inl e)"
  using assms by (simp add: intercept_def andThen_def)

lemma no_later_rule_in_prefix:
  assumes "ruleOf ev = Some j" and "k \<le> j"
  shows "ev \<notin> set (fst (executePreAuthVoters mr (take k metas) ctx))"
  using ruleOf_executePreAuthVoters_from [of ev mr 0 "take k metas" ctx] assms
  by (auto simp add: executePreAuthVoters_def)

lemma no_handler_in_loop:
  "HandlerCalled \<notin> set (fst (executePreAuthVoters mr metas ctx))"
  using ruleOf_executePreAuthVoters_from [of HandlerCalled mr 0 metas ctx]
  by (auto simp add: executePreAuthVoters_def)

subsection \<open>The turn of one rule\<close>

lemma preAuthVoter_lookup_fails:
  assumes "staticMethod meta = None" and "voterClass meta = Some cls"
    and "getVoterInstance mr cls = Inr v"
    and "\<forall>method. v (methodNameOrVote (voterMethodName meta)) \<noteq> Some (Function method)"
  shows "preAuthVoter mr i meta ctx =
     ([VoterResolved Pre i],
      Inl (case v (methodNameOrVote (voterMethodName meta)) of
             None \<Rightarrow>
               Error (''Method '' @ methodNameOrVote (voterMethodName meta) @
                      '' not found in '' @ className cls)
           | Some p \<Rightarrow>
               TypeError (methodNameOrVote (voterMethodName meta) @
                          '' is not a function in '' @ className cls)))"
  using assms
  by (simp add: preAuthVoter_def callVoterMethod_def Let_def
      split: option.splits js_property.splits)

lemma preAuthVoter_allowRule:
  "preAuthVoter mr i allowRule ctx = ([StaticMethodCalled Pre i], Inr ())"
  by (simp add: preAuthVoter_def allowRule_def callStaticMethod_def)

lemma preAuthVoter_denyRule:
  "preAuthVoter mr i denyRule ctx =
     ([StaticMethodCalled Pre i], Inl (VoterException ''Pre-authorization access denied''))"
  by (simp add: preAuthVoter_def denyRule_def callStaticMethod_def accessDenied_def)

lemma postAuthVoter_denyRule:
  "postAuthVoter mr i denyRule ctx =
     ([StaticMethodCalled Post i], Inl (VoterException ''Post-authorization access denied''))"
  by (simp add: postAuthVoter_def denyRule_def callStaticMethod_def accessDenied_def)

lemma snd_supportsSkips: "snd (supportsSkips i v ctx) = snd (supportsSkips 0 v ctx)"
  by (simp add: supportsSkips_def split: option.splits js_property.splits)

lemma preAuthVoter_returns:
  assumes "ruleReturns Pre mr meta ctx = Some b"
  shows "snd (preAuthVoter mr i meta ctx) =
     (if b then Inr ()
      else Inl (VoterException
        (case staticMethod meta of
           Some f \<Rightarrow> ''Pre-authorization access denied''
         | None \<Rightarrow>
             (case voterClass meta of
                Some c \<Rightarrow> ''Pre-authorization denied by '' @ className c @ ''.'' @
                           methodNameOrVote (voterMethodName meta)
              | None \<Rightarrow> []))))"
    and "filter isDecisionCall (fst (preAuthVoter mr i meta ctx)) = [decisionCall Pre meta i]"
  using assms
  by (auto simp add: ruleReturns_def preAuthVoter_def callStaticMethod_def callVoterMethod_def
      decisionCall_def accessDenied_def deniedBy_def Let_def
      split: option.splits sum.splits js_property.splits if_splits)

lemma postAuthVoter_returns:
  assumes "ruleReturns Post mr meta ctx = Some b"
  shows "snd (postAuthVoter mr i meta ctx) =
     (if b then Inr ()
      else Inl (VoterException
        (case staticMethod meta of
           Some f \<Rightarrow> ''Post-authorization access denied''
         | None \<Rightarrow>
             (case voterClass meta of
                Some c \<Rightarrow> ''Post-authorization denied by '' @ className c @ ''.'' @
                           methodNameOrVote (voterMethodName meta)
              | None \<Rightarrow> []))))"
  using assms snd_supportsSkips [of i _ ctx]
  by (auto simp add: ruleReturns_def postAuthVoter_def callStaticMethod_def callVoterMethod_def
      accessDenied_def deniedBy_def Let_def andThen_def
      split: option.splits sum.splits js_property.splits if_splits)

lemma ruleReturns_denyRule: "ruleReturns ph mr denyRule ctx = Some False"
  by (simp add: ruleReturns_def denyRule_def)

lemma ruleReturns_allowRule: "ruleReturns ph mr allowRule ctx = Some True"
  by (simp add: ruleReturns_def allowRule_def)

lemma ruleReturns_canCreateRule: "ruleReturns Pre (\<lambda>c. None) canCreateRule ctx = Some False"
  by (simp add: ruleReturns_def canCreateRule_def getVoterInstance_def TestVoter_def
      testVoter_def methodNameOrVote_def)

lemma ruleReturns_voteRule:
  "ruleReturns Post (\<lambda>c. None) voteRule (voterContext0\<lparr>data := JObj []\<rparr>) = Some False"
  by (simp add: ruleReturns_def voteRule_def getVoterInstance_def TestVoter_def
      testVoter_def methodNameOrVote_def supportsSkips_def)

lemma buildVoterContext_httpContext: "\<exists>vc. buildVoterContext httpContext = Inr vc"
  by (simp add: buildVoterContext_def getRequest_def getMethodArguments_def
      getMethodContext_def httpContext_def Let_def)

subsection \<open>Rules that all return true\<close>

lemma executePreAuthVoters_from_all_true:
  assumes "\<forall>j<length ms. ruleReturns Pre mr (ms ! j) ctx = Some True"
  shows "snd (executePreAuthVoters_from mr i ms ctx) = Inr ()
       \<and> filter isDecisionCall (fst (executePreAuthVoters_from mr i ms ctx)) =
           map (\<lambda>j. decisionCall Pre (ms ! j) (i + j)) [0..<length ms]"
  using assms
proof (induction ms arbitrary: i)
  case Nil
  show ?case by simp
next
  case (Cons meta rest)
  from Cons.prems have head: "ruleReturns Pre mr meta ctx = Some True"
    by auto
  from Cons.prems have tail: "\<forall>j<length rest. ruleReturns Pre mr (rest ! j) ctx = Some True"
    by auto
  have turn: "snd (preAuthVoter mr i meta ctx) = Inr ()"
    using preAuthVoter_returns(1) [OF head, of i] by simp
  have call: "filter isDecisionCall (fst (preAuthVoter mr i meta ctx)) = [decisionCall Pre meta i]"
    by (rule preAuthVoter_returns(2) [OF head])
  have step: "executePreAuthVoters_from mr i (meta # rest) ctx =
      (fst (preAuthVoter mr i meta ctx) @ fst (executePreAuthVoters_from mr (Suc i) rest ctx),
       snd (executePreAuthVoters_from mr (Suc i) rest ctx))"
    using turn by (simp add: andThen_def)
  from Cons.IH [OF tail, of "Suc i"] call
  show ?case
    by (simp add: step map_upt_Suc del: upt_Suc executePreAuthVoters_from.simps)
qed

lemma executePreAuthVoters_take_all_true:
  assumes "k < length metas"
    and "\<forall>j<k. ruleReturns Pre mr (metas ! j) ctx = Some True"
  shows "snd (executePreAuthVoters mr (take k metas) ctx) = Inr ()"
    and "filter isDecisionCall (fst (executePreAuthVoters mr (take k metas) ctx)) =
           map (\<lambda>j. decisionCall Pre (metas ! j) j) [0..<k]"
proof -
  have all: "\<forall>j<length (take k metas). ruleReturns Pre mr (take k metas ! j) ctx = Some True"
    using assms by simp
  have len: "length (take k metas) = k"
    using assms(1) by simp
  from executePreAuthVoters_from_all_true [OF all, of 0]
  show "snd (executePreAuthVoters mr (take k metas) ctx) = Inr ()"
    by (simp add: executePreAuthVoters_def)
  from executePreAuthVoters_from_all_true [OF all, of 0] assms(1)
  have "filter isDecisionCall (fst (executePreAuthVoters mr (take k metas) ctx)) =
      map (\<lambda>j. decisionCall Pre (take k metas ! j) j) [0..<k]"
    by (simp add: executePreAuthVoters_def min_def)
  also have "\<dots> = map (\<lambda>j. decisionCall Pre (metas ! j) j) [0..<k]"
    by (rule map_cong) simp_all
  finally show "filter isDecisionCall (fst (executePreAuthVoters mr (take k metas) ctx)) =
      map (\<lambda>j. decisionCall Pre (metas ! j) j) [0..<k]" .
qed

subsection \<open>The order of the events\<close>

lemma decisionIndices_append:
  "decisionIndices (xs @ ys) = decisionIndices xs @ decisionIndices ys"
  by (induction xs) (simp_all split: option.splits)

lemma decisionIndices_preAuthVoter:
  "decisionIndices (fst (preAuthVoter mr i meta ctx)) = [] \<or>
   decisionIndices (fst (preAuthVoter mr i meta ctx)) = [i]"
  by (simp add: preAuthVoter_def callStaticMethod_def callVoterMethod_def andThen_def Let_def
      split: option.splits sum.splits js_property.splits)

lemma decisionIndices_postAuthVoter:
  "decisionIndices (fst (postAuthVoter mr i meta ctx)) = [] \<or>
   decisionIndices (fst (postAuthVoter mr i meta ctx)) = [i]"
  by (simp add: postAuthVoter_def callStaticMethod_def callVoterMethod_def supportsSkips_def
      andThen_def Let_def
      split: option.splits sum.splits js_property.splits)

lemma sorted_decisionIndices_pre_from:
  "sorted_wrt (<) (decisionIndices (fst (executePreAuthVoters_from mr i ms ctx)))
   \<and> (\<forall>j\<in>set (decisionIndices (fst (executePreAuthVoters_from mr i ms ctx))). i \<le> j)"
proof (induction ms arbitrary: i)
  case Nil
  show ?case by simp
next
  case (Cons meta rest)
  let ?turn = "decisionIndices (fst (preAuthVoter mr i meta ctx))"
  let ?rest = "decisionIndices (fst (executePreAuthVoters_from mr (Suc i) rest ctx))"
  have turn: "?turn = [] \<or> ?turn = [i]"
    by (rule decisionIndices_preAuthVoter)
  have rest: "sorted_wrt (<) ?rest \<and> (\<forall>j\<in>set ?rest. Suc i \<le> j)"
    by (rule Cons.IH)
  have whole: "decisionIndices (fst (executePreAuthVoters_from mr i (meta # rest) ctx)) = ?turn
      \<or> decisionIndices (fst (executePreAuthVoters_from mr i (meta # rest) ctx)) = ?turn @ ?rest"
    by (simp add: fst_andThen decisionIndices_append split: sum.splits)
  from rest have sorted_rest: "sorted_wrt (<) ?rest"
    and above: "\<And>j. j \<in> set ?rest \<Longrightarrow> i < j"
    by (auto simp add: Suc_le_eq)
  from turn whole
  consider "decisionIndices (fst (executePreAuthVoters_from mr i (meta # rest) ctx)) = []"
    | "decisionIndices (fst (executePreAuthVoters_from mr i (meta # rest) ctx)) = [i]"
    | "decisionIndices (fst (executePreAuthVoters_from mr i (meta # rest) ctx)) = ?rest"
    | "decisionIndices (fst (executePreAuthVoters_from mr i (meta # rest) ctx)) = i # ?rest"
    by (auto simp del: executePreAuthVoters_from.simps)
  then show ?case
  proof cases
    case 1
    then show ?thesis by (simp del: executePreAuthVoters_from.simps)
  next
    case 2
    then show ?thesis by (simp del: executePreAuthVoters_from.simps)
  next
    case 3
    with sorted_rest above show ?thesis
      by (auto simp del: executePreAuthVoters_from.simps dest: less_imp_le)
  next
    case 4
    with sorted_rest above show ?thesis
      by (auto simp del: executePreAuthVoters_from.simps dest: less_imp_le)
  qed
qed

lemma sorted_decisionIndices_post_from:
  "sorted_wrt (<) (decisionIndices (fst (executePostAuthVoters_from mr i ms ctx)))
   \<and> (\<forall>j\<in>set (decisionIndices (fst (executePostAuthVoters_from mr i ms ctx))). i \<le> j)"
proof (induction ms arbitrary: i)
  case Nil
  show ?case by simp
next
  case (Cons meta rest)
  let ?turn = "decisionIndices (fst (postAuthVoter mr i meta ctx))"
  let ?rest = "decisionIndices (fst (executePostAuthVoters_from mr (Suc i) rest ctx))"
  have turn: "?turn = [] \<or> ?turn = [i]"
    by (rule decisionIndices_postAuthVoter)
  have rest: "sorted_wrt (<) ?rest \<and> (\<forall>j\<in>set ?rest. Suc i \<le> j)"
    by (rule Cons.IH)
  have whole: "decisionIndices (fst (executePostAuthVoters_from mr i (meta # rest) ctx)) = ?turn
      \<or> decisionIndices (fst (executePostAuthVoters_from mr i (meta # rest) ctx)) = ?turn @ ?rest"
    by (simp add: fst_andThen decisionIndices_append split: sum.splits)
  from rest have sorted_rest: "sorted_wrt (<) ?rest"
    and above: "\<And>j. j \<in> set ?rest \<Longrightarrow> i < j"
    by (auto simp add: Suc_le_eq)
  from turn whole
  consider "decisionIndices (fst (executePostAuthVoters_from mr i (meta # rest) ctx)) = []"
    | "decisionIndices (fst (executePostAuthVoters_from mr i (meta # rest) ctx)) = [i]"
    | "decisionIndices (fst (executePostAuthVoters_from mr i (meta # rest) ctx)) = ?rest"
    | "decisionIndices (fst (executePostAuthVoters_from mr i (meta # rest) ctx)) = i # ?rest"
    by (auto simp del: executePostAuthVoters_from.simps)
  then show ?case
  proof cases
    case 1
    then show ?thesis by (simp del: executePostAuthVoters_from.simps)
  next
    case 2
    then show ?thesis by (simp del: executePostAuthVoters_from.simps)
  next
    case 3
    with sorted_rest above show ?thesis
      by (auto simp del: executePostAuthVoters_from.simps dest: less_imp_le)
  next
    case 4
    with sorted_rest above show ?thesis
      by (auto simp del: executePostAuthVoters_from.simps dest: less_imp_le)
  qed
qed

lemma existingMetadata_registerAll:
  "existingMetadata (registerAll calls reg) key h =
     existingMetadata reg key h @ registeredBy calls key h"
  by (simp add: existingMetadata_def lookup_registerAll split: option.splits)

subsection \<open>The phase of the events of a loop\<close>

lemma phaseOf_preAuthVoter:
  "ev \<in> set (fst (preAuthVoter mr i meta ctx)) \<Longrightarrow> phaseOf ev = Some Pre"
  by (auto simp add: preAuthVoter_def callStaticMethod_def callVoterMethod_def fst_andThen Let_def
      split: option.splits sum.splits js_property.splits if_splits)

lemma phaseOf_postAuthVoter:
  "ev \<in> set (fst (postAuthVoter mr i meta ctx)) \<Longrightarrow> phaseOf ev = Some Post"
  by (auto simp add: postAuthVoter_def callStaticMethod_def callVoterMethod_def supportsSkips_def
      fst_andThen Let_def
      split: option.splits sum.splits js_property.splits if_splits)

lemma phaseOf_executePreAuthVoters_from:
  "ev \<in> set (fst (executePreAuthVoters_from mr i ms ctx)) \<Longrightarrow> phaseOf ev = Some Pre"
proof (induction ms arbitrary: i)
  case Nil
  then show ?case by simp
next
  case (Cons meta rest)
  from Cons.prems
  consider "ev \<in> set (fst (preAuthVoter mr i meta ctx))"
    | "ev \<in> set (fst (executePreAuthVoters_from mr (Suc i) rest ctx))"
    by (auto simp add: fst_andThen split: sum.splits)
  then show ?case
  proof cases
    case 1
    then show ?thesis by (rule phaseOf_preAuthVoter)
  next
    case 2
    then show ?thesis by (rule Cons.IH)
  qed
qed

lemma phaseOf_executePostAuthVoters_from:
  "ev \<in> set (fst (executePostAuthVoters_from mr i ms ctx)) \<Longrightarrow> phaseOf ev = Some Post"
proof (induction ms arbitrary: i)
  case Nil
  then show ?case by simp
next
  case (Cons meta rest)
  from Cons.prems
  consider "ev \<in> set (fst (postAuthVoter mr i meta ctx))"
    | "ev \<in> set (fst (executePostAuthVoters_from mr (Suc i) rest ctx))"
    by (auto simp add: fst_andThen split: sum.splits)
  then show ?case
  proof cases
    case 1
    then show ?thesis by (rule phaseOf_postAuthVoter)
  next
    case 2
    then show ?thesis by (rule Cons.IH)
  qed
qed

lemma phaseOf_executePreAuthVoters:
  "ev \<in> set (fst (executePreAuthVoters mr ms ctx)) \<Longrightarrow> phaseOf ev = Some Pre"
  by (simp add: executePreAuthVoters_def phaseOf_executePreAuthVoters_from)

lemma phaseOf_executePostAuthVoters:
  "ev \<in> set (fst (executePostAuthVoters mr ms ctx)) \<Longrightarrow> phaseOf ev = Some Post"
  by (simp add: executePostAuthVoters_def phaseOf_executePostAuthVoters_from)

subsection \<open>A loop up to its first throw, and a loop that completes\<close>

lemma executePreAuthVoters_from_throws:
  assumes "j < length ms"
    and "\<forall>i<j. snd (preAuthVoter mr (s + i) (ms ! i) ctx) = Inr ()"
    and "snd (preAuthVoter mr (s + j) (ms ! j) ctx) = Inl e"
  shows "executePreAuthVoters_from mr s ms ctx =
     (concat (map (\<lambda>i. fst (preAuthVoter mr (s + i) (ms ! i) ctx)) [0..<Suc j]), Inl e)"
  using assms
proof (induction ms arbitrary: s j)
  case Nil
  then show ?case by simp
next
  case (Cons meta rest)
  show ?case
  proof (cases j)
    case 0
    with Cons.prems show ?thesis
      by (simp add: andThen_def)
  next
    case (Suc j')
    from Cons.prems Suc have head: "snd (preAuthVoter mr s meta ctx) = Inr ()"
      by auto
    from Cons.prems Suc have len: "j' < length rest" by simp
    from Cons.prems Suc
    have before: "\<forall>i<j'. snd (preAuthVoter mr (Suc s + i) (rest ! i) ctx) = Inr ()"
      by auto
    from Cons.prems Suc
    have at: "snd (preAuthVoter mr (Suc s + j') (rest ! j') ctx) = Inl e"
      by simp
    from Cons.IH [OF len before at] head
    show ?thesis
      unfolding Suc
      by (simp add: andThen_def map_upt_Suc del: upt_Suc)
  qed
qed

lemma executePreAuthVoters_from_returns:
  assumes "\<forall>i<length ms. snd (preAuthVoter mr (s + i) (ms ! i) ctx) = Inr ()"
  shows "executePreAuthVoters_from mr s ms ctx =
     (concat (map (\<lambda>i. fst (preAuthVoter mr (s + i) (ms ! i) ctx)) [0..<length ms]), Inr ())"
  using assms
proof (induction ms arbitrary: s)
  case Nil
  then show ?case by simp
next
  case (Cons meta rest)
  from Cons.prems have head: "snd (preAuthVoter mr s meta ctx) = Inr ()"
    by auto
  from Cons.prems
  have tail: "\<forall>i<length rest. snd (preAuthVoter mr (Suc s + i) (rest ! i) ctx) = Inr ()"
    by auto
  from Cons.IH [OF tail] head show ?case
    by (simp add: andThen_def map_upt_Suc del: upt_Suc)
qed

lemma executePostAuthVoters_from_throws:
  assumes "j < length ms"
    and "\<forall>i<j. snd (postAuthVoter mr (s + i) (ms ! i) ctx) = Inr ()"
    and "snd (postAuthVoter mr (s + j) (ms ! j) ctx) = Inl e"
  shows "executePostAuthVoters_from mr s ms ctx =
     (concat (map (\<lambda>i. fst (postAuthVoter mr (s + i) (ms ! i) ctx)) [0..<Suc j]), Inl e)"
  using assms
proof (induction ms arbitrary: s j)
  case Nil
  then show ?case by simp
next
  case (Cons meta rest)
  show ?case
  proof (cases j)
    case 0
    with Cons.prems show ?thesis
      by (simp add: andThen_def)
  next
    case (Suc j')
    from Cons.prems Suc have head: "snd (postAuthVoter mr s meta ctx) = Inr ()"
      by auto
    from Cons.prems Suc have len: "j' < length rest" by simp
    from Cons.prems Suc
    have before: "\<forall>i<j'. snd (postAuthVoter mr (Suc s + i) (rest ! i) ctx) = Inr ()"
      by auto
    from Cons.prems Suc
    have at: "snd (postAuthVoter mr (Suc s + j') (rest ! j') ctx) = Inl e"
      by simp
    from Cons.IH [OF len before at] head
    show ?thesis
      unfolding Suc
      by (simp add: andThen_def map_upt_Suc del: upt_Suc)
  qed
qed

lemma executePostAuthVoters_from_returns:
  assumes "\<forall>i<length ms. snd (postAuthVoter mr (s + i) (ms ! i) ctx) = Inr ()"
  shows "executePostAuthVoters_from mr s ms ctx =
     (concat (map (\<lambda>i. fst (postAuthVoter mr (s + i) (ms ! i) ctx)) [0..<length ms]), Inr ())"
  using assms
proof (induction ms arbitrary: s)
  case Nil
  then show ?case by simp
next
  case (Cons meta rest)
  from Cons.prems have head: "snd (postAuthVoter mr s meta ctx) = Inr ()"
    by auto
  from Cons.prems
  have tail: "\<forall>i<length rest. snd (postAuthVoter mr (Suc s + i) (rest ! i) ctx) = Inr ()"
    by auto
  from Cons.IH [OF tail] head show ?case
    by (simp add: andThen_def map_upt_Suc del: upt_Suc)
qed

subsection \<open>\<^verbatim>\<open>intercept\<close> in terms of the two metadata reads\<close>

lemma intercept_on:
  assumes "reflector this (PRE_AUTH_VOTER_METADATA, getHandler c) = p"
    and "reflector this (POST_AUTH_VOTER_METADATA, getHandler c) = q"
  shows "intercept this c next =
     (if p = None \<and> q = None then ([HandlerCalled], handle next)
      else andThen ([BuildContext], buildVoterContext c)
        (\<lambda>vc. andThen
           (executePreAuthVoters (moduleRef this) (case p of None \<Rightarrow> [] | Some pre \<Rightarrow> pre) vc)
           (\<lambda>_. case q of
                   None \<Rightarrow> ([HandlerCalled], handle next)
                 | Some post \<Rightarrow>
                     andThen ([HandlerCalled], handle next)
                       (\<lambda>d. andThen
                          (executePostAuthVoters (moduleRef this) post (vc\<lparr>data := d\<rparr>))
                          (\<lambda>_. ([], Inr d))))))"
  by (cases p; cases q)
     (simp_all add: intercept_def assms callHandler_def executePreAuthVoters_def Let_def)

lemma intercept_events:
  assumes "ev \<in> set (fst (intercept this c next))"
  shows "ev = BuildContext \<or> ev = HandlerCalled
     \<or> (\<exists>pre vc. reflector this (PRE_AUTH_VOTER_METADATA, getHandler c) = Some pre
           \<and> ev \<in> set (fst (executePreAuthVoters (moduleRef this) pre vc)))
     \<or> (\<exists>post vc. reflector this (POST_AUTH_VOTER_METADATA, getHandler c) = Some post
           \<and> ev \<in> set (fst (executePostAuthVoters (moduleRef this) post vc)))"
  using assms
  by (simp add: intercept_on [OF refl refl] fst_andThen executePreAuthVoters_def
      split: if_splits sum.splits option.splits) blast+

lemma lookup_registerAll_empty:
  "registerAll calls Map.empty (key, h) =
     (if registeredBy calls key h = [] then None else Some (registeredBy calls key h))"
  by (simp add: lookup_registerAll existingMetadata_def)

lemma intercept_registered:
  "intercept \<lparr>reflector = registerAll calls Map.empty, moduleRef = mr\<rparr> c next =
     (if registeredBy calls PRE_AUTH_VOTER_METADATA (getHandler c) = [] \<and>
         registeredBy calls POST_AUTH_VOTER_METADATA (getHandler c) = []
      then ([HandlerCalled], handle next)
      else andThen ([BuildContext], buildVoterContext c)
        (\<lambda>vc. andThen
           (executePreAuthVoters mr (registeredBy calls PRE_AUTH_VOTER_METADATA (getHandler c)) vc)
           (\<lambda>_. if registeredBy calls POST_AUTH_VOTER_METADATA (getHandler c) = []
                then ([HandlerCalled], handle next)
                else andThen ([HandlerCalled], handle next)
                  (\<lambda>d. andThen
                     (executePostAuthVoters mr
                        (registeredBy calls POST_AUTH_VOTER_METADATA (getHandler c))
                        (vc\<lparr>data := d\<rparr>))
                     (\<lambda>_. ([], Inr d))))))"
  by (simp add: intercept_def lookup_registerAll_empty callHandler_def executePreAuthVoters_def
      andThen_def split: sum.splits)

subsection \<open>An inline function beside a voter class\<close>

lemma callStaticMethod_turn:
  assumes "staticMethod meta = Some f"
  shows "preAuthVoter mr i meta ctx =
       ([StaticMethodCalled Pre i],
        case f ctx of
          Inl e \<Rightarrow> Inl e
        | Inr hasAccess \<Rightarrow>
            if hasAccess then Inr ()
            else Inl (VoterException ''Pre-authorization access denied''))"
    and "postAuthVoter mr i meta ctx =
       ([StaticMethodCalled Post i],
        case f ctx of
          Inl e \<Rightarrow> Inl e
        | Inr hasAccess \<Rightarrow>
            if hasAccess then Inr ()
            else Inl (VoterException ''Post-authorization access denied''))"
  using assms
  by (simp_all add: preAuthVoter_def postAuthVoter_def callStaticMethod_def accessDenied_def
      split: sum.splits)

lemma turn_without_class:
  assumes "staticMethod meta = Some f"
  shows "preAuthVoter mr i (meta\<lparr>voterClass := None, voterMethodName := None\<rparr>) ctx =
           preAuthVoter mr i meta ctx"
    and "postAuthVoter mr i (meta\<lparr>voterClass := None, voterMethodName := None\<rparr>) ctx =
           postAuthVoter mr i meta ctx"
  using assms by (simp_all add: preAuthVoter_def postAuthVoter_def)

lemma loops_same_turn:
  assumes "\<And>i ctx. preAuthVoter mr i meta' ctx = preAuthVoter mr i meta ctx"
    and "\<And>i ctx. postAuthVoter mr i meta' ctx = postAuthVoter mr i meta ctx"
  shows "executePreAuthVoters mr (before @ meta' # rest) ctx =
           executePreAuthVoters mr (before @ meta # rest) ctx"
    and "executePostAuthVoters mr (before @ meta' # rest) ctx =
           executePostAuthVoters mr (before @ meta # rest) ctx"
  by (simp_all add: executePreAuthVoters_def executePostAuthVoters_def
      executePreAuthVoters_from_append executePostAuthVoters_from_append assms)

lemma intercept_replace_same:
  assumes "reflector this (key, getHandler c) = Some ms"
    and "\<And>ctx. executePreAuthVoters (moduleRef this) ms' ctx =
              executePreAuthVoters (moduleRef this) ms ctx"
    and "\<And>ctx. executePostAuthVoters (moduleRef this) ms' ctx =
              executePostAuthVoters (moduleRef this) ms ctx"
  shows "intercept (this\<lparr>reflector := (reflector this)((key, getHandler c) \<mapsto> ms')\<rparr>) c next =
           intercept this c next"
proof (cases key)
  case PRE_AUTH_VOTER_METADATA
  with assms show ?thesis
    by (simp add: intercept_on [OF refl refl] cong: option.case_cong)
next
  case POST_AUTH_VOTER_METADATA
  with assms show ?thesis
    by (simp add: intercept_on [OF refl refl] cong: option.case_cong)
qed

lemma only_static_event_at:
  assumes "staticMethod meta = Some f"
    and "ruleOf ev = Some (length before)"
  shows "ev \<in> set (fst (executePreAuthVoters mr (before @ meta # rest) ctx)) \<Longrightarrow>
           ev = StaticMethodCalled Pre (length before)"
    and "ev \<in> set (fst (executePostAuthVoters mr (before @ meta # rest) ctx)) \<Longrightarrow>
           ev = StaticMethodCalled Post (length before)"
proof -
  let ?k = "length before"
  assume "ev \<in> set (fst (executePreAuthVoters mr (before @ meta # rest) ctx))"
  then consider "ev \<in> set (fst (executePreAuthVoters_from mr 0 before ctx))"
    | "ev \<in> set (fst (preAuthVoter mr ?k meta ctx))"
    | "ev \<in> set (fst (executePreAuthVoters_from mr (Suc ?k) rest ctx))"
    by (auto simp add: executePreAuthVoters_def executePreAuthVoters_from_append fst_andThen
        split: sum.splits)
  then show "ev = StaticMethodCalled Pre ?k"
  proof cases
    case 1
    with ruleOf_executePreAuthVoters_from [of ev mr 0 before ctx] assms(2)
    show ?thesis by auto
  next
    case 2
    then show ?thesis by (simp add: callStaticMethod_turn(1) [OF assms(1)])
  next
    case 3
    with ruleOf_executePreAuthVoters_from [of ev mr "Suc ?k" rest ctx] assms(2)
    show ?thesis by auto
  qed
next
  let ?k = "length before"
  assume "ev \<in> set (fst (executePostAuthVoters mr (before @ meta # rest) ctx))"
  then consider "ev \<in> set (fst (executePostAuthVoters_from mr 0 before ctx))"
    | "ev \<in> set (fst (postAuthVoter mr ?k meta ctx))"
    | "ev \<in> set (fst (executePostAuthVoters_from mr (Suc ?k) rest ctx))"
    by (auto simp add: executePostAuthVoters_def executePostAuthVoters_from_append fst_andThen
        split: sum.splits)
  then show "ev = StaticMethodCalled Post ?k"
  proof cases
    case 1
    with ruleOf_executePostAuthVoters_from [of ev mr 0 before ctx] assms(2)
    show ?thesis by auto
  next
    case 2
    then show ?thesis by (simp add: callStaticMethod_turn(2) [OF assms(1)])
  next
    case 3
    with ruleOf_executePostAuthVoters_from [of ev mr "Suc ?k" rest ctx] assms(2)
    show ?thesis by auto
  qed
qed

lemma intercept_only_static_event_at:
  assumes "staticMethod meta = Some f"
    and "reflector this (key, getHandler c) = Some (before @ meta # rest)"
    and "ev \<in> set (fst (intercept this c next))"
    and "ruleOf ev = Some (length before)"
    and "phaseOf ev = Some (keyPhase key)"
  shows "ev = StaticMethodCalled (keyPhase key) (length before)"
proof -
  from intercept_events [OF assms(3)] assms(4)
  consider pre vc where "reflector this (PRE_AUTH_VOTER_METADATA, getHandler c) = Some pre"
      and "ev \<in> set (fst (executePreAuthVoters (moduleRef this) pre vc))"
    | post vc where "reflector this (POST_AUTH_VOTER_METADATA, getHandler c) = Some post"
      and "ev \<in> set (fst (executePostAuthVoters (moduleRef this) post vc))"
    by auto
  then show ?thesis
  proof cases
    case 1
    from phaseOf_executePreAuthVoters [OF 1(2)] assms(5) have key: "key = PRE_AUTH_VOTER_METADATA"
      by (cases key) simp_all
    from 1(1) assms(2) key have "pre = before @ meta # rest" by simp
    with 1(2) only_static_event_at(1) [OF assms(1,4)] key show ?thesis by simp
  next
    case 2
    from phaseOf_executePostAuthVoters [OF 2(2)] assms(5) have key: "key = POST_AUTH_VOTER_METADATA"
      by (cases key) simp_all
    from 2(1) assms(2) key have "post = before @ meta # rest" by simp
    with 2(2) only_static_event_at(2) [OF assms(1,4)] key show ?thesis by simp
  qed
qed

lemma intercept_static_refuses_pre:
  assumes "staticMethod meta = Some f"
    and "reflector this (PRE_AUTH_VOTER_METADATA, getHandler c) = Some (before @ meta # rest)"
    and "buildVoterContext c = Inr vc"
    and "snd (executePreAuthVoters (moduleRef this) before vc) = Inr ()"
    and "f vc = Inr False"
  shows "intercept this c next =
     (BuildContext # fst (executePreAuthVoters (moduleRef this) before vc) @
        [StaticMethodCalled Pre (length before)],
      Inl (VoterException ''Pre-authorization access denied''))"
proof -
  have "executePreAuthVoters (moduleRef this) (before @ meta # rest) vc =
      (fst (executePreAuthVoters (moduleRef this) before vc) @
         [StaticMethodCalled Pre (length before)],
       Inl (VoterException ''Pre-authorization access denied''))"
    using assms(4,5)
    by (simp add: executePreAuthVoters_def executePreAuthVoters_from_append andThen_def
        callStaticMethod_turn(1) [OF assms(1)])
  with assms(2,3) show ?thesis
    by (simp add: intercept_on [OF refl refl])
qed

lemma intercept_static_refuses_post:
  assumes "staticMethod meta = Some f"
    and "reflector this (POST_AUTH_VOTER_METADATA, getHandler c) = Some (before @ meta # rest)"
    and "buildVoterContext c = Inr vc"
    and "snd (executePreAuthVoters (moduleRef this)
           (existingMetadata (reflector this) PRE_AUTH_VOTER_METADATA (getHandler c)) vc) = Inr ()"
    and "handle next = Inr d"
    and "snd (executePostAuthVoters (moduleRef this) before (vc\<lparr>data := d\<rparr>)) = Inr ()"
    and "f (vc\<lparr>data := d\<rparr>) = Inr False"
  shows "intercept this c next =
     (BuildContext #
        fst (executePreAuthVoters (moduleRef this)
               (existingMetadata (reflector this) PRE_AUTH_VOTER_METADATA (getHandler c)) vc) @
        HandlerCalled #
        fst (executePostAuthVoters (moduleRef this) before (vc\<lparr>data := d\<rparr>)) @
        [StaticMethodCalled Post (length before)],
      Inl (VoterException ''Post-authorization access denied''))"
proof -
  have post: "executePostAuthVoters (moduleRef this) (before @ meta # rest) (vc\<lparr>data := d\<rparr>) =
      (fst (executePostAuthVoters (moduleRef this) before (vc\<lparr>data := d\<rparr>)) @
         [StaticMethodCalled Post (length before)],
       Inl (VoterException ''Post-authorization access denied''))"
    using assms(6,7)
    by (simp add: executePostAuthVoters_def executePostAuthVoters_from_append andThen_def
        callStaticMethod_turn(2) [OF assms(1)])
  have pre: "executePreAuthVoters (moduleRef this)
      (case reflector this (PRE_AUTH_VOTER_METADATA, getHandler c) of
         None \<Rightarrow> [] | Some pre \<Rightarrow> pre) vc =
      (fst (executePreAuthVoters (moduleRef this)
              (existingMetadata (reflector this) PRE_AUTH_VOTER_METADATA (getHandler c)) vc),
       Inr ())"
    using assms(4) by (simp add: existingMetadata_def prod_eq_iff)
  from assms(2,3,5) show ?thesis
    by (simp add: intercept_on [OF refl refl] pre post)
qed

subsection \<open>A rule without inline function and without voter class\<close>

lemma filtered_andThen:
  assumes "snd m = snd m' \<and> fst m = filter P (fst m')"
    and "\<And>x. snd (k x) = snd (k' x) \<and> fst (k x) = filter P (fst (k' x))"
  shows "snd (andThen m k) = snd (andThen m' k') \<and>
         fst (andThen m k) = filter P (fst (andThen m' k'))"
  using assms by (simp add: andThen_def split: sum.splits)

lemma filtered_same:
  assumes "\<And>ev. ev \<in> set (fst m) \<Longrightarrow> P ev"
  shows "snd m = snd m \<and> fst m = filter P (fst m)"
  using assms by (simp add: filter_id_conv)

lemma empty_turn:
  assumes "staticMethod meta = None" and "voterClass meta = None"
  shows "preAuthVoter mr i meta ctx = ([], Inr ())"
    and "postAuthVoter mr i meta ctx = ([], Inr ())"
  using assms by (simp_all add: preAuthVoter_def postAuthVoter_def)

lemma empty_rule_in_pre_loop:
  assumes "staticMethod meta = None" and "voterClass meta = None"
  shows "snd (executePreAuthVoters mr (before @ meta # rest) ctx) =
           snd (executePreAuthVoters mr (before @ allowRule # rest) ctx)
       \<and> fst (executePreAuthVoters mr (before @ meta # rest) ctx) =
           filter (\<lambda>ev. ev \<noteq> StaticMethodCalled Pre (length before))
             (fst (executePreAuthVoters mr (before @ allowRule # rest) ctx))"
proof -
  let ?P = "\<lambda>ev. ev \<noteq> StaticMethodCalled Pre (length before)"
  let ?B = "executePreAuthVoters_from mr 0 before ctx"
  let ?R = "executePreAuthVoters_from mr (Suc (length before)) rest ctx"
  have B: "snd ?B = snd ?B \<and> fst ?B = filter ?P (fst ?B)"
  proof (rule filtered_same)
    fix ev assume "ev \<in> set (fst ?B)"
    with ruleOf_executePreAuthVoters_from [of ev mr 0 before ctx] show "?P ev" by auto
  qed
  have R: "snd ?R = snd ?R \<and> fst ?R = filter ?P (fst ?R)"
  proof (rule filtered_same)
    fix ev assume "ev \<in> set (fst ?R)"
    with ruleOf_executePreAuthVoters_from [of ev mr "Suc (length before)" rest ctx]
    show "?P ev" by auto
  qed
  have turn: "snd (andThen (preAuthVoter mr (length before) meta ctx) (\<lambda>_. ?R)) =
        snd (andThen (preAuthVoter mr (length before) allowRule ctx) (\<lambda>_. ?R))
      \<and> fst (andThen (preAuthVoter mr (length before) meta ctx) (\<lambda>_. ?R)) =
        filter ?P (fst (andThen (preAuthVoter mr (length before) allowRule ctx) (\<lambda>_. ?R)))"
    using R by (simp add: empty_turn(1) [OF assms] preAuthVoter_allowRule)
  from filtered_andThen [of ?B ?B ?P, OF B turn]
  show ?thesis
    by (simp add: executePreAuthVoters_def executePreAuthVoters_from_append)
qed

lemma empty_rule_in_post_loop:
  assumes "staticMethod meta = None" and "voterClass meta = None"
  shows "snd (executePostAuthVoters mr (before @ meta # rest) ctx) =
           snd (executePostAuthVoters mr (before @ allowRule # rest) ctx)
       \<and> fst (executePostAuthVoters mr (before @ meta # rest) ctx) =
           filter (\<lambda>ev. ev \<noteq> StaticMethodCalled Post (length before))
             (fst (executePostAuthVoters mr (before @ allowRule # rest) ctx))"
proof -
  let ?P = "\<lambda>ev. ev \<noteq> StaticMethodCalled Post (length before)"
  let ?B = "executePostAuthVoters_from mr 0 before ctx"
  let ?R = "executePostAuthVoters_from mr (Suc (length before)) rest ctx"
  have B: "snd ?B = snd ?B \<and> fst ?B = filter ?P (fst ?B)"
  proof (rule filtered_same)
    fix ev assume "ev \<in> set (fst ?B)"
    with ruleOf_executePostAuthVoters_from [of ev mr 0 before ctx] show "?P ev" by auto
  qed
  have R: "snd ?R = snd ?R \<and> fst ?R = filter ?P (fst ?R)"
  proof (rule filtered_same)
    fix ev assume "ev \<in> set (fst ?R)"
    with ruleOf_executePostAuthVoters_from [of ev mr "Suc (length before)" rest ctx]
    show "?P ev" by auto
  qed
  have turn: "snd (andThen (postAuthVoter mr (length before) meta ctx) (\<lambda>_. ?R)) =
        snd (andThen (postAuthVoter mr (length before) allowRule ctx) (\<lambda>_. ?R))
      \<and> fst (andThen (postAuthVoter mr (length before) meta ctx) (\<lambda>_. ?R)) =
        filter ?P (fst (andThen (postAuthVoter mr (length before) allowRule ctx) (\<lambda>_. ?R)))"
    using R by (simp add: empty_turn(2) [OF assms] postAuthVoter_allowRule)
  from filtered_andThen [of ?B ?B ?P, OF B turn]
  show ?thesis
    by (simp add: executePostAuthVoters_def executePostAuthVoters_from_append)
qed

lemma after_pre_filtered:
  assumes "\<And>ev. phaseOf ev \<noteq> Some Pre \<Longrightarrow> P ev"
  shows "snd (case q of
                None \<Rightarrow> ([HandlerCalled], handle next)
              | Some post \<Rightarrow>
                  andThen ([HandlerCalled], handle next)
                    (\<lambda>d. andThen (executePostAuthVoters mr post (vc\<lparr>data := d\<rparr>))
                       (\<lambda>_. ([], Inr d)))) =
         snd (case q of
                None \<Rightarrow> ([HandlerCalled], handle next)
              | Some post \<Rightarrow>
                  andThen ([HandlerCalled], handle next)
                    (\<lambda>d. andThen (executePostAuthVoters mr post (vc\<lparr>data := d\<rparr>))
                       (\<lambda>_. ([], Inr d))))
       \<and> fst (case q of
                None \<Rightarrow> ([HandlerCalled], handle next)
              | Some post \<Rightarrow>
                  andThen ([HandlerCalled], handle next)
                    (\<lambda>d. andThen (executePostAuthVoters mr post (vc\<lparr>data := d\<rparr>))
                       (\<lambda>_. ([], Inr d)))) =
         filter P
           (fst (case q of
                None \<Rightarrow> ([HandlerCalled], handle next)
              | Some post \<Rightarrow>
                  andThen ([HandlerCalled], handle next)
                    (\<lambda>d. andThen (executePostAuthVoters mr post (vc\<lparr>data := d\<rparr>))
                       (\<lambda>_. ([], Inr d)))))"
proof (rule filtered_same)
  fix ev
  assume "ev \<in> set (fst (case q of
                None \<Rightarrow> ([HandlerCalled], handle next)
              | Some post \<Rightarrow>
                  andThen ([HandlerCalled], handle next)
                    (\<lambda>d. andThen (executePostAuthVoters mr post (vc\<lparr>data := d\<rparr>))
                       (\<lambda>_. ([], Inr d)))))"
  then have "ev = HandlerCalled
      \<or> (\<exists>post d. ev \<in> set (fst (executePostAuthVoters mr post (vc\<lparr>data := d\<rparr>))))"
    by (auto simp add: fst_andThen split: option.splits sum.splits)
  then have "phaseOf ev \<noteq> Some Pre"
    by (auto dest: phaseOf_executePostAuthVoters)
  then show "P ev" by (rule assms)
qed

lemma intercept_replace_filtered:
  assumes "reflector this (key, getHandler c) = Some ms"
    and "\<And>ctx. key = PRE_AUTH_VOTER_METADATA \<Longrightarrow>
           snd (executePreAuthVoters (moduleRef this) ms ctx) =
             snd (executePreAuthVoters (moduleRef this) ms' ctx)
           \<and> fst (executePreAuthVoters (moduleRef this) ms ctx) =
             filter P (fst (executePreAuthVoters (moduleRef this) ms' ctx))"
    and "\<And>ctx. key = POST_AUTH_VOTER_METADATA \<Longrightarrow>
           snd (executePostAuthVoters (moduleRef this) ms ctx) =
             snd (executePostAuthVoters (moduleRef this) ms' ctx)
           \<and> fst (executePostAuthVoters (moduleRef this) ms ctx) =
             filter P (fst (executePostAuthVoters (moduleRef this) ms' ctx))"
    and "\<And>ev. phaseOf ev \<noteq> Some (keyPhase key) \<Longrightarrow> P ev"
  shows "snd (intercept this c next) =
           snd (intercept (this\<lparr>reflector := (reflector this)((key, getHandler c) \<mapsto> ms')\<rparr>)
                  c next)
       \<and> fst (intercept this c next) =
           filter P
             (fst (intercept (this\<lparr>reflector := (reflector this)((key, getHandler c) \<mapsto> ms')\<rparr>)
                     c next))"
proof (cases key)
  case PRE_AUTH_VOTER_METADATA
  let ?q = "reflector this (POST_AUTH_VOTER_METADATA, getHandler c)"
  let ?after = "\<lambda>vc. case ?q of
        None \<Rightarrow> ([HandlerCalled], handle next)
      | Some post \<Rightarrow>
          andThen ([HandlerCalled], handle next)
            (\<lambda>d. andThen (executePostAuthVoters (moduleRef this) post (vc\<lparr>data := d\<rparr>))
               (\<lambda>_. ([], Inr d)))"
  have other: "\<And>ev. phaseOf ev \<noteq> Some Pre \<Longrightarrow> P ev"
    using assms(4) by (simp add: PRE_AUTH_VOTER_METADATA)
  have left: "intercept this c next =
      andThen ([BuildContext], buildVoterContext c)
        (\<lambda>vc. andThen (executePreAuthVoters (moduleRef this) ms vc) (\<lambda>_. ?after vc))"
    using assms(1) by (simp add: intercept_on [OF refl refl] PRE_AUTH_VOTER_METADATA)
  have right: "intercept (this\<lparr>reflector := (reflector this)((key, getHandler c) \<mapsto> ms')\<rparr>) c next =
      andThen ([BuildContext], buildVoterContext c)
        (\<lambda>vc. andThen (executePreAuthVoters (moduleRef this) ms' vc) (\<lambda>_. ?after vc))"
    by (simp add: intercept_on [OF refl refl] PRE_AUTH_VOTER_METADATA cong: option.case_cong)
  have start: "snd ([BuildContext], buildVoterContext c) = snd ([BuildContext], buildVoterContext c)
      \<and> fst ([BuildContext], buildVoterContext c) =
        filter P (fst ([BuildContext], buildVoterContext c))"
    by (rule filtered_same) (simp add: other)
  show ?thesis
    unfolding left right
    by (rule filtered_andThen [OF start])
      (rule filtered_andThen [OF assms(2) [OF PRE_AUTH_VOTER_METADATA]],
        rule after_pre_filtered [OF other])
next
  case POST_AUTH_VOTER_METADATA
  let ?pre = "case reflector this (PRE_AUTH_VOTER_METADATA, getHandler c) of
      None \<Rightarrow> [] | Some pre \<Rightarrow> pre"
  have other: "\<And>ev. phaseOf ev \<noteq> Some Post \<Longrightarrow> P ev"
    using assms(4) by (simp add: POST_AUTH_VOTER_METADATA)
  have left: "intercept this c next =
      andThen ([BuildContext], buildVoterContext c)
        (\<lambda>vc. andThen (executePreAuthVoters (moduleRef this) ?pre vc)
           (\<lambda>_. andThen ([HandlerCalled], handle next)
              (\<lambda>d. andThen (executePostAuthVoters (moduleRef this) ms (vc\<lparr>data := d\<rparr>))
                 (\<lambda>_. ([], Inr d)))))"
    using assms(1) by (simp add: intercept_on [OF refl refl] POST_AUTH_VOTER_METADATA)
  have right: "intercept (this\<lparr>reflector := (reflector this)((key, getHandler c) \<mapsto> ms')\<rparr>) c next =
      andThen ([BuildContext], buildVoterContext c)
        (\<lambda>vc. andThen (executePreAuthVoters (moduleRef this) ?pre vc)
           (\<lambda>_. andThen ([HandlerCalled], handle next)
              (\<lambda>d. andThen (executePostAuthVoters (moduleRef this) ms' (vc\<lparr>data := d\<rparr>))
                 (\<lambda>_. ([], Inr d)))))"
    by (simp add: intercept_on [OF refl refl] POST_AUTH_VOTER_METADATA)
  have start: "snd ([BuildContext], buildVoterContext c) = snd ([BuildContext], buildVoterContext c)
      \<and> fst ([BuildContext], buildVoterContext c) =
        filter P (fst ([BuildContext], buildVoterContext c))"
    by (rule filtered_same) (simp add: other)
  have pre: "snd (executePreAuthVoters (moduleRef this) ?pre vc) =
        snd (executePreAuthVoters (moduleRef this) ?pre vc)
      \<and> fst (executePreAuthVoters (moduleRef this) ?pre vc) =
        filter P (fst (executePreAuthVoters (moduleRef this) ?pre vc))" for vc
    by (rule filtered_same) (auto dest!: phaseOf_executePreAuthVoters intro!: other)
  have handler: "snd ([HandlerCalled], handle next) = snd ([HandlerCalled], handle next)
      \<and> fst ([HandlerCalled], handle next) = filter P (fst ([HandlerCalled], handle next))"
    by (rule filtered_same) (simp add: other)
  have last: "snd ([], Inr d) = snd ([], Inr d :: exn + js_value)
      \<and> fst ([], Inr d :: exn + js_value) = filter P (fst ([], Inr d :: exn + js_value))" for d
    by simp
  show ?thesis
    unfolding left right
    by (rule filtered_andThen [OF start])
      (rule filtered_andThen [OF pre],
        rule filtered_andThen [OF handler],
        rule filtered_andThen [OF assms(3) [OF POST_AUTH_VOTER_METADATA]],
        rule last)
qed

lemma empty_rules_pre_loop:
  assumes "\<forall>m\<in>set ms. staticMethod m = None \<and> voterClass m = None"
  shows "executePreAuthVoters_from mr i ms ctx = ([], Inr ())"
  using assms by (induction ms arbitrary: i) (simp_all add: empty_turn)

lemma empty_rules_post_loop:
  assumes "\<forall>m\<in>set ms. staticMethod m = None \<and> voterClass m = None"
  shows "executePostAuthVoters_from mr i ms ctx = ([], Inr ())"
  using assms by (induction ms arbitrary: i) (simp_all add: empty_turn)

lemma intercept_empty_rules:
  assumes "\<forall>m\<in>set (existingMetadata (reflector this) PRE_AUTH_VOTER_METADATA (getHandler c)).
             staticMethod m = None \<and> voterClass m = None"
    and "\<forall>m\<in>set (existingMetadata (reflector this) POST_AUTH_VOTER_METADATA (getHandler c)).
             staticMethod m = None \<and> voterClass m = None"
    and "buildVoterContext c = Inr vc"
  shows "intercept this c next =
     ((if reflector this (PRE_AUTH_VOTER_METADATA, getHandler c) = None \<and>
          reflector this (POST_AUTH_VOTER_METADATA, getHandler c) = None
       then [] else [BuildContext]) @ [HandlerCalled],
      handle next)"
proof -
  let ?p = "reflector this (PRE_AUTH_VOTER_METADATA, getHandler c)"
  let ?q = "reflector this (POST_AUTH_VOTER_METADATA, getHandler c)"
  have pre: "executePreAuthVoters (moduleRef this) (case ?p of None \<Rightarrow> [] | Some pre \<Rightarrow> pre) ctx =
      ([], Inr ())" for ctx
    using assms(1) empty_rules_pre_loop [of "case ?p of None \<Rightarrow> [] | Some pre \<Rightarrow> pre"]
    by (simp add: existingMetadata_def executePreAuthVoters_def)
  have post: "?q = Some ms \<Longrightarrow> executePostAuthVoters (moduleRef this) ms ctx = ([], Inr ())"
    for ms ctx
    using assms(2) empty_rules_post_loop [of ms]
    by (simp add: existingMetadata_def executePostAuthVoters_def)
  show ?thesis
  proof (cases ?q)
    case None
    then show ?thesis
      by (simp add: intercept_on [OF refl refl] pre assms(3))
  next
    case (Some ms)
    with post [OF Some] show ?thesis
      by (cases "handle next") (simp_all add: intercept_on [OF refl refl] pre assms(3))
  qed
qed

section \<open>Properties of the interceptor\<close>

text \<open>
  C1, as the code has it. An operation with pre-phase rules of which the rule
  at position \<open>k\<close> is the first whose decision function returns false, all
  the rules before it returning true: the decision functions that are called
  are exactly those of the rules at positions \<open>0\<close> to \<open>k\<close>, in this order;
  no event belongs to a later rule; the handler is not called; and the
  evaluation ends in a \<^verbatim>\<open>VoterException\<close>. Its reason names the voter
  class and the method when rule \<open>k\<close> names a voter class, and is the fixed
  text \<^verbatim>\<open>Pre-authorization access denied\<close>, which names no rule, when
  rule \<open>k\<close> is an inline function.
\<close>

theorem first_false_pre_rule_denies:
  assumes "reflector this (PRE_AUTH_VOTER_METADATA, getHandler c) = Some metas"
    and "buildVoterContext c = Inr vc"
    and "k < length metas"
    and "\<forall>j<k. ruleReturns Pre (moduleRef this) (metas ! j) vc = Some True"
    and "ruleReturns Pre (moduleRef this) (metas ! k) vc = Some False"
  shows "filter isDecisionCall (fst (intercept this c next)) =
           map (\<lambda>j. decisionCall Pre (metas ! j) j) [0..<Suc k]
       \<and> (\<forall>ev\<in>set (fst (intercept this c next)). \<forall>j. ruleOf ev = Some j \<longrightarrow> j \<le> k)
       \<and> HandlerCalled \<notin> set (fst (intercept this c next))
       \<and> (\<forall>f. staticMethod (metas ! k) = Some f \<longrightarrow>
            snd (intercept this c next) =
              Inl (VoterException ''Pre-authorization access denied''))
       \<and> (\<forall>cls. staticMethod (metas ! k) = None \<and> voterClass (metas ! k) = Some cls \<longrightarrow>
            snd (intercept this c next) =
              Inl (VoterException
                (''Pre-authorization denied by '' @ className cls @ ''.'' @
                 methodNameOrVote (voterMethodName (metas ! k)))))"
proof -
  let ?mr = "moduleRef this"
  let ?before = "fst (executePreAuthVoters ?mr (take k metas) vc)"
  let ?turn = "fst (preAuthVoter ?mr k (metas ! k) vc)"
  let ?reason = "case staticMethod (metas ! k) of
       Some f \<Rightarrow> ''Pre-authorization access denied''
     | None \<Rightarrow>
         (case voterClass (metas ! k) of
            Some cls \<Rightarrow> ''Pre-authorization denied by '' @ className cls @ ''.'' @
                       methodNameOrVote (voterMethodName (metas ! k))
          | None \<Rightarrow> [])"
  have passed: "snd (executePreAuthVoters ?mr (take k metas) vc) = Inr ()"
    by (rule executePreAuthVoters_take_all_true(1) [OF assms(3,4)])
  have calls_before: "filter isDecisionCall ?before =
      map (\<lambda>j. decisionCall Pre (metas ! j) j) [0..<k]"
    by (rule executePreAuthVoters_take_all_true(2) [OF assms(3,4)])
  have denied: "snd (preAuthVoter ?mr k (metas ! k) vc) = Inl (VoterException ?reason)"
    using preAuthVoter_returns(1) [OF assms(5), of k] by simp
  have call_k: "filter isDecisionCall ?turn = [decisionCall Pre (metas ! k) k]"
    by (rule preAuthVoter_returns(2) [OF assms(5)])
  have loop: "executePreAuthVoters ?mr metas vc = (?before @ ?turn, Inl (VoterException ?reason))"
    by (rule executePreAuthVoters_stops [OF assms(3) passed denied])
  have whole: "intercept this c next =
      (BuildContext # ?before @ ?turn, Inl (VoterException ?reason))"
    using intercept_pre_throws [OF assms(1,2), of "VoterException ?reason" "next"] loop
    by simp
  have calls: "filter isDecisionCall (fst (intercept this c next)) =
      map (\<lambda>j. decisionCall Pre (metas ! j) j) [0..<Suc k]"
    by (simp add: whole calls_before call_k)
  have bound: "\<forall>ev\<in>set (fst (intercept this c next)). \<forall>j. ruleOf ev = Some j \<longrightarrow> j \<le> k"
  proof (intro ballI allI impI)
    fix ev j
    assume ev: "ev \<in> set (fst (intercept this c next))" and j: "ruleOf ev = Some j"
    from ev j have "ev \<in> set ?before \<or> ev \<in> set ?turn"
      by (auto simp add: whole)
    then show "j \<le> k"
    proof
      assume "ev \<in> set ?before"
      with ruleOf_executePreAuthVoters_from [of ev ?mr 0 "take k metas" vc] j assms(3)
      show ?thesis by (auto simp add: executePreAuthVoters_def)
    next
      assume "ev \<in> set ?turn"
      with ruleOf_preAuthVoter [of ev ?mr k "metas ! k" vc] j
      show ?thesis by simp
    qed
  qed
  have no_handler: "HandlerCalled \<notin> set (fst (intercept this c next))"
  proof
    assume h: "HandlerCalled \<in> set (fst (intercept this c next))"
    then have "HandlerCalled \<in> set ?before \<or> HandlerCalled \<in> set ?turn"
      by (auto simp add: whole)
    then show False
    proof
      assume "HandlerCalled \<in> set ?before"
      with no_handler_in_loop show False by blast
    next
      assume "HandlerCalled \<in> set ?turn"
      with ruleOf_preAuthVoter [of HandlerCalled ?mr k "metas ! k" vc]
      show False by simp
    qed
  qed
  have reason: "snd (intercept this c next) = Inl (VoterException ?reason)"
    by (simp add: whole)
  from calls bound no_handler reason show ?thesis
    by simp
qed

theorem first_false_pre_rule_denies_witness:
  "filter isDecisionCall
     (fst (intercept (interceptorWith [(PRE_AUTH_VOTER_METADATA, getUser) \<mapsto>
                        [allowRule, canCreateRule, allowRule]]) httpContext nextHandler)) =
     [StaticMethodCalled Pre 0, VoterMethodCalled Pre 1]
   \<and> HandlerCalled \<notin>
       set (fst (intercept (interceptorWith [(PRE_AUTH_VOTER_METADATA, getUser) \<mapsto>
                              [allowRule, canCreateRule, allowRule]]) httpContext nextHandler))
   \<and> snd (intercept (interceptorWith [(PRE_AUTH_VOTER_METADATA, getUser) \<mapsto>
                        [allowRule, canCreateRule, allowRule]]) httpContext nextHandler) =
       Inl (VoterException ''Pre-authorization denied by TestVoter.canCreate'')
   \<and> snd (intercept (interceptorWith [(PRE_AUTH_VOTER_METADATA, getUser) \<mapsto>
                        [allowRule, allowRule, denyRule]]) httpContext nextHandler) =
       Inl (VoterException ''Pre-authorization access denied'')"
proof -
  let ?V = "[allowRule, canCreateRule, allowRule]"
  let ?P = "[allowRule, allowRule, denyRule]"
  let ?IV = "interceptorWith [(PRE_AUTH_VOTER_METADATA, getUser) \<mapsto> ?V]"
  let ?IP = "interceptorWith [(PRE_AUTH_VOTER_METADATA, getUser) \<mapsto> ?P]"
  obtain vc where vc: "buildVoterContext httpContext = Inr vc"
    using buildVoterContext_httpContext by blast
  have mr: "moduleRef ?IV = (\<lambda>c. None)" "moduleRef ?IP = (\<lambda>c. None)"
    by (simp_all add: interceptorWith_def)
  have v1: "reflector ?IV (PRE_AUTH_VOTER_METADATA, getHandler httpContext) = Some ?V"
    by (simp add: interceptorWith_def httpContext_def)
  have p1: "reflector ?IP (PRE_AUTH_VOTER_METADATA, getHandler httpContext) = Some ?P"
    by (simp add: interceptorWith_def httpContext_def)
  have v3: "Suc 0 < length ?V" by simp
  have p3: "Suc (Suc 0) < length ?P" by simp
  have v4: "\<forall>j<Suc 0. ruleReturns Pre (moduleRef ?IV) (?V ! j) vc = Some True"
    by (simp add: ruleReturns_allowRule)
  have p4: "\<forall>j<Suc (Suc 0). ruleReturns Pre (moduleRef ?IP) (?P ! j) vc = Some True"
    by (simp add: ruleReturns_allowRule less_Suc_eq)
  have v5: "ruleReturns Pre (moduleRef ?IV) (?V ! Suc 0) vc = Some False"
    by (simp add: mr ruleReturns_canCreateRule)
  have p5: "ruleReturns Pre (moduleRef ?IP) (?P ! Suc (Suc 0)) vc = Some False"
    by (simp add: ruleReturns_denyRule)
  have sv: "staticMethod canCreateRule = None \<and> voterClass canCreateRule = Some TestVoter
      \<and> methodNameOrVote (voterMethodName canCreateRule) = ''canCreate''"
    by (simp add: canCreateRule_def methodNameOrVote_def)
  have sp: "staticMethod denyRule = Some (\<lambda>ctx. Inr False)"
    by (simp add: denyRule_def)
  have cn: "className TestVoter = ''TestVoter''"
    by (simp add: TestVoter_def)
  have d0: "decisionCall Pre allowRule 0 = StaticMethodCalled Pre 0"
    by (simp add: decisionCall_def allowRule_def)
  have d1: "decisionCall Pre canCreateRule (Suc 0) = VoterMethodCalled Pre (Suc 0)"
    by (simp add: decisionCall_def canCreateRule_def)
  from first_false_pre_rule_denies [OF v1 vc v3 v4 v5, of nextHandler] sv cn d0 d1
  have V: "filter isDecisionCall (fst (intercept ?IV httpContext nextHandler)) =
      [StaticMethodCalled Pre 0, VoterMethodCalled Pre 1]
    \<and> HandlerCalled \<notin> set (fst (intercept ?IV httpContext nextHandler))
    \<and> snd (intercept ?IV httpContext nextHandler) =
      Inl (VoterException ''Pre-authorization denied by TestVoter.canCreate'')"
    by simp
  from first_false_pre_rule_denies [OF p1 vc p3 p4 p5, of nextHandler] sp
  have P: "snd (intercept ?IP httpContext nextHandler) =
      Inl (VoterException ''Pre-authorization access denied'')"
    by simp
  from V P show ?thesis by simp
qed

text \<open>
  The denial of an inline function does not tell which rule produced it: it
  is the same exception when the second of two rules refuses and when the
  first one does.
\<close>

theorem predicate_denial_is_the_same_for_every_rule:
  "snd (intercept (interceptorWith [(PRE_AUTH_VOTER_METADATA, getUser) \<mapsto> [allowRule, denyRule]])
          httpContext nextHandler) =
     Inl (VoterException ''Pre-authorization access denied'')
   \<and> filter isDecisionCall
       (fst (intercept (interceptorWith [(PRE_AUTH_VOTER_METADATA, getUser) \<mapsto> [allowRule, denyRule]])
               httpContext nextHandler)) =
       [StaticMethodCalled Pre 0, StaticMethodCalled Pre 1]
   \<and> snd (intercept (interceptorWith [(PRE_AUTH_VOTER_METADATA, getUser) \<mapsto> [denyRule, allowRule]])
            httpContext nextHandler) =
       Inl (VoterException ''Pre-authorization access denied'')
   \<and> filter isDecisionCall
       (fst (intercept (interceptorWith [(PRE_AUTH_VOTER_METADATA, getUser) \<mapsto> [denyRule, allowRule]])
               httpContext nextHandler)) =
       [StaticMethodCalled Pre 0]"
proof -
  let ?A = "interceptorWith [(PRE_AUTH_VOTER_METADATA, getUser) \<mapsto> [allowRule, denyRule]]"
  let ?B = "interceptorWith [(PRE_AUTH_VOTER_METADATA, getUser) \<mapsto> [denyRule, allowRule]]"
  let ?e = "VoterException ''Pre-authorization access denied''"
  obtain vc where vc: "buildVoterContext httpContext = Inr vc"
    using buildVoterContext_httpContext by blast
  have a1: "reflector ?A (PRE_AUTH_VOTER_METADATA, getHandler httpContext) = Some [allowRule, denyRule]"
    by (simp add: interceptorWith_def httpContext_def)
  have b1: "reflector ?B (PRE_AUTH_VOTER_METADATA, getHandler httpContext) = Some [denyRule, allowRule]"
    by (simp add: interceptorWith_def httpContext_def)
  have a2: "executePreAuthVoters (moduleRef ?A) [allowRule, denyRule] vc =
      ([StaticMethodCalled Pre 0, StaticMethodCalled Pre 1], Inl ?e)"
    by (simp add: executePreAuthVoters_def preAuthVoter_allowRule preAuthVoter_denyRule)
  have b2: "executePreAuthVoters (moduleRef ?B) [denyRule, allowRule] vc =
      ([StaticMethodCalled Pre 0], Inl ?e)"
    by (simp add: executePreAuthVoters_def preAuthVoter_denyRule)
  have A: "intercept ?A httpContext nextHandler =
      ([BuildContext, StaticMethodCalled Pre 0, StaticMethodCalled Pre 1], Inl ?e)"
    using intercept_pre_throws [OF a1 vc, of ?e nextHandler] a2 by simp
  have B: "intercept ?B httpContext nextHandler =
      ([BuildContext, StaticMethodCalled Pre 0], Inl ?e)"
    using intercept_pre_throws [OF b1 vc, of ?e nextHandler] b2 by simp
  show ?thesis by (simp add: A B)
qed

text \<open>
  C2, as the code has it. In either phase, when the rule at position \<open>k\<close>
  is the first whose decision function returns false (the turns of the rules
  before it all complete), the evaluation ends in a \<^verbatim>\<open>VoterException\<close>
  whose reason is \<^verbatim>\<open>Pre-authorization denied by <Class>.<method>\<close> (in the
  post-phase \<^verbatim>\<open>Post-authorization denied by <Class>.<method>\<close>) when the
  rule names a voter class, and the fixed text
  \<^verbatim>\<open>Pre-authorization access denied\<close> (\<^verbatim>\<open>Post-authorization access denied\<close>)
  when the rule is an inline function.
\<close>

theorem denial_reason:
  assumes "k < length metas"
    and "snd (executeVoters ph mr (take k metas) ctx) = Inr ()"
    and "ruleReturns ph mr (metas ! k) ctx = Some False"
  shows "(\<forall>f. staticMethod (metas ! k) = Some f \<longrightarrow>
            snd (executeVoters ph mr metas ctx) =
              Inl (VoterException
                (case ph of
                   Pre \<Rightarrow> ''Pre-authorization access denied''
                 | Post \<Rightarrow> ''Post-authorization access denied'')))
       \<and> (\<forall>c. staticMethod (metas ! k) = None \<and> voterClass (metas ! k) = Some c \<longrightarrow>
            snd (executeVoters ph mr metas ctx) =
              Inl (VoterException
                ((case ph of
                    Pre \<Rightarrow> ''Pre-authorization denied by ''
                  | Post \<Rightarrow> ''Post-authorization denied by '') @
                 className c @ ''.'' @ methodNameOrVote (voterMethodName (metas ! k)))))"
proof (cases ph)
  case Pre
  have returns: "ruleReturns Pre mr (metas ! k) ctx = Some False"
    using assms(3) by (simp add: Pre)
  have turn: "snd (preAuthVoter mr k (metas ! k) ctx) =
      Inl (VoterException
        (case staticMethod (metas ! k) of
           Some f \<Rightarrow> ''Pre-authorization access denied''
         | None \<Rightarrow>
             (case voterClass (metas ! k) of
                Some c \<Rightarrow> ''Pre-authorization denied by '' @ className c @ ''.'' @
                           methodNameOrVote (voterMethodName (metas ! k))
              | None \<Rightarrow> [])))"
    using preAuthVoter_returns(1) [OF returns, of k] by simp
  from assms(2) have before: "snd (executePreAuthVoters mr (take k metas) ctx) = Inr ()"
    by (simp add: Pre executeVoters_def)
  from executePreAuthVoters_stops [OF assms(1) before turn]
  show ?thesis by (simp add: Pre executeVoters_def)
next
  case Post
  have returns: "ruleReturns Post mr (metas ! k) ctx = Some False"
    using assms(3) by (simp add: Post)
  have turn: "snd (postAuthVoter mr k (metas ! k) ctx) =
      Inl (VoterException
        (case staticMethod (metas ! k) of
           Some f \<Rightarrow> ''Post-authorization access denied''
         | None \<Rightarrow>
             (case voterClass (metas ! k) of
                Some c \<Rightarrow> ''Post-authorization denied by '' @ className c @ ''.'' @
                           methodNameOrVote (voterMethodName (metas ! k))
              | None \<Rightarrow> [])))"
    using postAuthVoter_returns [OF returns, of k] by simp
  from assms(2) have before: "snd (executePostAuthVoters mr (take k metas) ctx) = Inr ()"
    by (simp add: Post executeVoters_def)
  from executePostAuthVoters_stops [OF assms(1) before turn]
  show ?thesis by (simp add: Post executeVoters_def)
qed

theorem denial_reason_witness:
  "snd (executeVoters Pre (\<lambda>c. None) [allowRule, canCreateRule, allowRule] voterContext0) =
     Inl (VoterException ''Pre-authorization denied by TestVoter.canCreate'')
   \<and> snd (executeVoters Post (\<lambda>c. None) [allowRule, voteRule]
            (voterContext0\<lparr>data := JObj []\<rparr>)) =
       Inl (VoterException ''Post-authorization denied by TestVoter.vote'')
   \<and> snd (executeVoters Pre (\<lambda>c. None) [allowRule, denyRule] voterContext0) =
       Inl (VoterException ''Pre-authorization access denied'')
   \<and> snd (executeVoters Post (\<lambda>c. None) [denyRule, allowRule]
            (voterContext0\<lparr>data := JObj []\<rparr>)) =
       Inl (VoterException ''Post-authorization access denied'')"
proof -
  let ?post = "voterContext0\<lparr>data := JObj []\<rparr>"
  have pre1: "snd (executeVoters Pre (\<lambda>c. None) (take (Suc 0) [allowRule, canCreateRule, allowRule])
      voterContext0) = Inr ()"
    by (simp add: executeVoters_def executePreAuthVoters_def preAuthVoter_allowRule)
  have pre2: "snd (executeVoters Pre (\<lambda>c. None) (take (Suc 0) [allowRule, denyRule])
      voterContext0) = Inr ()"
    by (simp add: executeVoters_def executePreAuthVoters_def preAuthVoter_allowRule)
  have post1: "snd (executeVoters Post (\<lambda>c. None) (take (Suc 0) [allowRule, voteRule]) ?post) = Inr ()"
    by (simp add: executeVoters_def executePostAuthVoters_def postAuthVoter_allowRule)
  have post2: "snd (executeVoters Post (\<lambda>c. None) (take 0 [denyRule, allowRule]) ?post) = Inr ()"
    by (simp add: executeVoters_def executePostAuthVoters_def)
  have r1: "ruleReturns Pre (\<lambda>c. None) ([allowRule, canCreateRule, allowRule] ! Suc 0) voterContext0 =
      Some False"
    by (simp add: ruleReturns_canCreateRule)
  have r2: "ruleReturns Post (\<lambda>c. None) ([allowRule, voteRule] ! Suc 0) ?post = Some False"
    by (simp add: ruleReturns_voteRule)
  have r3: "ruleReturns Pre (\<lambda>c. None) ([allowRule, denyRule] ! Suc 0) voterContext0 = Some False"
    by (simp add: ruleReturns_denyRule)
  have r4: "ruleReturns Post (\<lambda>c. None) ([denyRule, allowRule] ! 0) ?post = Some False"
    by (simp add: ruleReturns_denyRule)
  have k1: "Suc 0 < length [allowRule, canCreateRule, allowRule]" by simp
  have k2: "Suc 0 < length [allowRule, voteRule]" by simp
  have k3: "Suc 0 < length [allowRule, denyRule]" by simp
  have k4: "0 < length [denyRule, allowRule]" by simp
  have s1: "staticMethod canCreateRule = None \<and> voterClass canCreateRule = Some TestVoter
      \<and> methodNameOrVote (voterMethodName canCreateRule) = ''canCreate''"
    by (simp add: canCreateRule_def methodNameOrVote_def)
  have s2: "staticMethod voteRule = None \<and> voterClass voteRule = Some TestVoter
      \<and> methodNameOrVote (voterMethodName voteRule) = ''vote''"
    by (simp add: voteRule_def methodNameOrVote_def)
  have s3: "staticMethod denyRule = Some (\<lambda>ctx. Inr False)"
    by (simp add: denyRule_def)
  have cn: "className TestVoter = ''TestVoter''"
    by (simp add: TestVoter_def)
  from denial_reason [OF k1 pre1 r1] s1 cn
  have A: "snd (executeVoters Pre (\<lambda>c. None) [allowRule, canCreateRule, allowRule] voterContext0) =
      Inl (VoterException ''Pre-authorization denied by TestVoter.canCreate'')"
    by simp
  from denial_reason [OF k2 post1 r2] s2 cn
  have B: "snd (executeVoters Post (\<lambda>c. None) [allowRule, voteRule] ?post) =
      Inl (VoterException ''Post-authorization denied by TestVoter.vote'')"
    by simp
  from denial_reason [OF k3 pre2 r3] s3
  have C: "snd (executeVoters Pre (\<lambda>c. None) [allowRule, denyRule] voterContext0) =
      Inl (VoterException ''Pre-authorization access denied'')"
    by simp
  from denial_reason [OF k4 post2 r4] s3
  have D: "snd (executeVoters Post (\<lambda>c. None) [denyRule, allowRule] ?post) =
      Inl (VoterException ''Post-authorization access denied'')"
    by simp
  from A B C D show ?thesis by simp
qed

text \<open>
  The reason of the denial of an inline function does not have the form
  \<^verbatim>\<open>Pre-authorization denied by <ruleIdentity>\<close>, nor
  \<^verbatim>\<open>Post-authorization denied by <ruleIdentity>\<close> in the post-phase.
\<close>

theorem predicate_denial_names_no_rule:
  "ruleReturns Pre (\<lambda>c. None) denyRule voterContext0 = Some False
   \<and> snd (executePreAuthVoters (\<lambda>c. None) [denyRule] voterContext0) =
       Inl (VoterException ''Pre-authorization access denied'')
   \<and> \<not> prefix ''Pre-authorization denied by '' ''Pre-authorization access denied''
   \<and> ruleReturns Post (\<lambda>c. None) denyRule (voterContext0\<lparr>data := JObj []\<rparr>) = Some False
   \<and> snd (executePostAuthVoters (\<lambda>c. None) [denyRule] (voterContext0\<lparr>data := JObj []\<rparr>)) =
       Inl (VoterException ''Post-authorization access denied'')
   \<and> \<not> prefix ''Post-authorization denied by '' ''Post-authorization access denied''"
  by (simp add: ruleReturns_denyRule executePreAuthVoters_def executePostAuthVoters_def
      preAuthVoter_denyRule postAuthVoter_denyRule)


text \<open>
  C3. A post-phase rule that names a voter class, whose resolved voter has a
  \<^verbatim>\<open>supports\<close> function that returns false for the produced data: the
  turn of the rule resolves the voter and calls \<^verbatim>\<open>supports\<close>, and that
  is all. The named method is never called, the turn throws nothing, and the
  evaluation goes on as it does when the rule in this place is one that returns
  true: the same outcome, and the same events of all the other rules.
\<close>

theorem unsupported_data_skips_voter:
  assumes "staticMethod meta = None" and "voterClass meta = Some c"
    and "getVoterInstance mr c = Inr v"
    and "v ''supports'' = Some (Function supports)"
    and "supports (Data (data ctx)) = Inr False"
  shows "postAuthVoter mr (length before) meta ctx =
           ([VoterResolved Post (length before), SupportsCalled (length before)], Inr ())
       \<and> VoterMethodCalled Post (length before) \<notin>
           set (fst (executePostAuthVoters mr (before @ meta # rest) ctx))
       \<and> snd (executePostAuthVoters mr (before @ meta # rest) ctx) =
           snd (executePostAuthVoters mr (before @ allowRule # rest) ctx)
       \<and> filter (\<lambda>ev. ruleOf ev \<noteq> Some (length before))
             (fst (executePostAuthVoters mr (before @ meta # rest) ctx)) =
           filter (\<lambda>ev. ruleOf ev \<noteq> Some (length before))
             (fst (executePostAuthVoters mr (before @ allowRule # rest) ctx))"
proof -
  let ?k = "length before"
  let ?pre = "executePostAuthVoters_from mr 0 before ctx"
  let ?post = "executePostAuthVoters_from mr (Suc ?k) rest ctx"
  have turn: "postAuthVoter mr ?k meta ctx = ([VoterResolved Post ?k, SupportsCalled ?k], Inr ())"
    by (rule postAuthVoter_unsupported [OF assms])
  have run: "executePostAuthVoters mr (before @ meta # rest) ctx =
      andThen ?pre (\<lambda>_. ([VoterResolved Post ?k, SupportsCalled ?k] @ fst ?post, snd ?post))"
    by (simp add: executePostAuthVoters_def executePostAuthVoters_from_append turn)
  have run': "executePostAuthVoters mr (before @ allowRule # rest) ctx =
      andThen ?pre (\<lambda>_. ([StaticMethodCalled Post ?k] @ fst ?post, snd ?post))"
    by (simp add: executePostAuthVoters_def executePostAuthVoters_from_append
        postAuthVoter_allowRule)
  have before: "VoterMethodCalled Post ?k \<notin> set (fst ?pre)"
    using ruleOf_executePostAuthVoters_from [of "VoterMethodCalled Post ?k" mr 0 before ctx]
    by auto
  have after: "VoterMethodCalled Post ?k \<notin> set (fst ?post)"
    using ruleOf_executePostAuthVoters_from [of "VoterMethodCalled Post ?k" mr "Suc ?k" rest ctx]
    by auto
  have never: "VoterMethodCalled Post ?k \<notin>
      set (fst (executePostAuthVoters mr (before @ meta # rest) ctx))"
    using before after by (simp add: run fst_andThen split: sum.splits)
  have same: "snd (executePostAuthVoters mr (before @ meta # rest) ctx) =
      snd (executePostAuthVoters mr (before @ allowRule # rest) ctx)"
    by (simp add: run run' snd_andThen split: sum.splits)
  have others: "filter (\<lambda>ev. ruleOf ev \<noteq> Some ?k)
        (fst (executePostAuthVoters mr (before @ meta # rest) ctx)) =
      filter (\<lambda>ev. ruleOf ev \<noteq> Some ?k)
        (fst (executePostAuthVoters mr (before @ allowRule # rest) ctx))"
    by (simp add: run run' fst_andThen split: sum.splits)
  from turn never same others show ?thesis by simp
qed

theorem unsupported_data_skips_voter_witness:
  "postAuthVoter (\<lambda>c. None) 1 voteRule (voterContext0\<lparr>data := JStr ''test''\<rparr>) =
     ([VoterResolved Post 1, SupportsCalled 1], Inr ())
   \<and> VoterMethodCalled Post 1 \<notin>
       set (fst (executePostAuthVoters (\<lambda>c. None) [allowRule, voteRule, allowRule]
                   (voterContext0\<lparr>data := JStr ''test''\<rparr>)))
   \<and> snd (executePostAuthVoters (\<lambda>c. None) [allowRule, voteRule, allowRule]
             (voterContext0\<lparr>data := JStr ''test''\<rparr>)) = Inr ()"
proof -
  let ?ctx = "voterContext0\<lparr>data := JStr ''test''\<rparr>"
  let ?supports = "\<lambda>a. case a of Data (JObj kvs) \<Rightarrow> Inr True | _ \<Rightarrow> (Inr False :: exn + bool)"
  have h1: "staticMethod voteRule = None" by (simp add: voteRule_def)
  have h2: "voterClass voteRule = Some TestVoter" by (simp add: voteRule_def)
  have h3: "getVoterInstance (\<lambda>c. None) TestVoter = Inr testVoter"
    by (simp add: getVoterInstance_def TestVoter_def)
  have h4: "testVoter ''supports'' = Some (Function ?supports)"
    by (simp add: testVoter_def)
  have h5: "?supports (Data (data ?ctx)) = Inr False"
    by (simp add: voterContext0_def)
  have allowed: "snd (executePostAuthVoters (\<lambda>c. None) [allowRule, allowRule, allowRule] ?ctx) = Inr ()"
    by (simp add: executePostAuthVoters_def postAuthVoter_allowRule)
  from unsupported_data_skips_voter [OF h1 h2 h3 h4 h5, of "[allowRule]" "[allowRule]"] allowed
  show ?thesis by simp
qed

text \<open>
  C4. An operation for which the registration calls registered no rule, in
  neither phase: the interceptor calls the handler and does nothing else (no
  voter context is built, no rule is evaluated), and what the caller gets is
  what the handler gives.
\<close>

theorem no_rules_pass_through:
  assumes "registeredBy calls PRE_AUTH_VOTER_METADATA (getHandler c) = []"
    and "registeredBy calls POST_AUTH_VOTER_METADATA (getHandler c) = []"
  shows "intercept \<lparr>reflector = registerAll calls Map.empty, moduleRef = mr\<rparr> c next =
           ([HandlerCalled], handle next)"
  by (rule intercept_no_metadata) (simp_all add: lookup_registerAll assms)

theorem no_rules_pass_through_witness:
  "registeredBy [(PreAuthVoterDecorator (Constructor TestVoter), createUser)]
     PRE_AUTH_VOTER_METADATA (getHandler gqlContext) = []
   \<and> registeredBy [(PreAuthVoterDecorator (Constructor TestVoter), createUser)]
       POST_AUTH_VOTER_METADATA (getHandler gqlContext) = []
   \<and> intercept
       \<lparr>reflector =
          registerAll [(PreAuthVoterDecorator (Constructor TestVoter), createUser)] Map.empty,
        moduleRef = (\<lambda>c. None)\<rparr> gqlContext nextHandler =
       ([HandlerCalled], Inr (JStr ''output''))"
proof -
  let ?calls = "[(PreAuthVoterDecorator (Constructor TestVoter), createUser)]"
  have h1: "registeredBy ?calls PRE_AUTH_VOTER_METADATA (getHandler gqlContext) = []"
    by (simp add: gqlContext_def getUser_def createUser_def)
  have h2: "registeredBy ?calls POST_AUTH_VOTER_METADATA (getHandler gqlContext) = []"
    by simp
  from no_rules_pass_through [OF h1 h2, of "\<lambda>c. None" nextHandler] h1 h2
  show ?thesis by (simp add: nextHandler_def)
qed

text \<open>
  C5. For an HTTP request the arguments are the merge of the path parameters,
  the query parameters and the body in which the later source wins: a key of
  the body overrides the same key of the query parameters, which overrides the
  same key of the path parameters. These are the arguments of the voter
  context.
\<close>

theorem http_arguments_merge:
  assumes "getType c = ''http''"
  shows "getMethodArguments c =
           Inr (laterSourceWins (spread (params (httpRequest c)))
                  (spread (query (httpRequest c))) (spread (body (httpRequest c))))
         \<and> (\<exists>vc. buildVoterContext c = Inr vc \<and>
                 args vc = laterSourceWins (spread (params (httpRequest c)))
                             (spread (query (httpRequest c))) (spread (body (httpRequest c))))"
  using assms
  by (simp add: getMethodArguments_def buildVoterContext_def getRequest_def
      getMethodContext_def map_add_laterSourceWins Let_def)

theorem http_arguments_merge_witness:
  "getType httpContext = ''http''
   \<and> (case getMethodArguments httpContext of
        Inl e \<Rightarrow> False
      | Inr as \<Rightarrow>
          as ''id'' = Some (JStr ''body'') \<and> as ''q'' = Some (JNum 2) \<and>
          as ''p'' = Some (JNum 1) \<and> as ''other'' = None)"
proof -
  have h: "getType httpContext = ''http''"
    by (simp add: httpContext_def)
  from http_arguments_merge [OF h]
  have "getMethodArguments httpContext =
      Inr (laterSourceWins (spread (params (httpRequest httpContext)))
             (spread (query (httpRequest httpContext))) (spread (body (httpRequest httpContext))))"
    by simp
  with h show ?thesis
    by (simp add: laterSourceWins_def spread_def httpContext_def)
qed

text \<open>
  C6, as the code has it. A call that is not an HTTP call, whose GraphQL
  operation kind is none of query, mutation and subscription, on an operation
  that has metadata in at least one phase: the evaluation stops while the voter
  context is built, with the error for an unknown operation type. No rule has
  been touched, the handler is not called, and the error is no denial.
\<close>

theorem unknown_operation_fails:
  assumes "getType c \<noteq> ''http''"
    and "graphql c = Some g"
    and "operation g \<noteq> ''query''" and "operation g \<noteq> ''mutation''"
    and "operation g \<noteq> ''subscription''"
    and "reflector this (PRE_AUTH_VOTER_METADATA, getHandler c) \<noteq> None
       \<or> reflector this (POST_AUTH_VOTER_METADATA, getHandler c) \<noteq> None"
  shows "intercept this c next =
           ([BuildContext], Inl (Error (''Unknown GraphQL operation type: '' @ operation g)))
       \<and> \<not> isDenial (Error (''Unknown GraphQL operation type: '' @ operation g))"
proof -
  have "buildVoterContext c = Inl (Error (''Unknown GraphQL operation type: '' @ operation g))"
    using assms(1-5)
    by (simp add: buildVoterContext_def getRequest_def getMethodArguments_def
        getMethodContext_def getGqlExecutionContext_def)
  with assms(6) show ?thesis
    by (auto simp add: intercept_def Option.is_none_def)
qed

theorem unknown_operation_fails_witness:
  "intercept (interceptorWith (PostAuthVoter (Constructor TestVoter) getUser Map.empty))
     gqlContext nextHandler =
     ([BuildContext], Inl (Error ''Unknown GraphQL operation type: introspection''))"
proof -
  let ?I = "interceptorWith (PostAuthVoter (Constructor TestVoter) getUser Map.empty)"
  let ?g = "\<lparr>gql_req = \<lparr>user = JObj [(''id'', JStr ''u1'')], params = None, query = None, body = None\<rparr>,
             gql_args = [''id'' \<mapsto> JStr ''1''], fieldName = ''user'',
             operation = ''introspection''\<rparr>"
  have h1: "getType gqlContext \<noteq> ''http''" by (simp add: gqlContext_def)
  have h2: "graphql gqlContext = Some ?g" by (simp add: gqlContext_def)
  have h3: "operation ?g \<noteq> ''query''" by simp
  have h4: "operation ?g \<noteq> ''mutation''" by simp
  have h5: "operation ?g \<noteq> ''subscription''" by simp
  have h6: "reflector ?I (PRE_AUTH_VOTER_METADATA, getHandler gqlContext) \<noteq> None
      \<or> reflector ?I (POST_AUTH_VOTER_METADATA, getHandler gqlContext) \<noteq> None"
    by (simp add: interceptorWith_def PostAuthVoter_def gqlContext_def)
  from unknown_operation_fails [OF h1 h2 h3 h4 h5 h6, of nextHandler]
  show ?thesis by simp
qed

text \<open>
  The same call on an operation without metadata: the handler runs and its
  output is returned; the operation kind is never read.
\<close>

theorem unknown_operation_without_rules:
  "intercept (interceptorWith Map.empty) gqlContext nextHandler =
     ([HandlerCalled], Inr (JStr ''output''))
   \<and> getType gqlContext \<noteq> ''http''
   \<and> map_option operation (graphql gqlContext) = Some ''introspection''"
  by (simp add: intercept_def interceptorWith_def gqlContext_def nextHandler_def callHandler_def)

text \<open>
  C7. A pre-phase rule that names a voter class, reached by the loop (the
  turns of the rules before it complete), whose voter is resolved and has no
  function under the method name: the evaluation ends in an error that is no
  denial, \<^verbatim>\<open>Error\<close> \<open>Method <name> not found in <Class>\<close> when there is no
  such property, and the distinct \<^verbatim>\<open>TypeError\<close>
  \<open><name> is not a function in <Class>\<close> when the property is there and is
  not callable. The turn of the rule stops after resolving the voter: no
  decision is produced, and the handler is not called.
\<close>

theorem missing_method_is_configuration_error:
  assumes "reflector this (PRE_AUTH_VOTER_METADATA, getHandler c) = Some metas"
    and "buildVoterContext c = Inr vc"
    and "k < length metas"
    and "snd (executePreAuthVoters (moduleRef this) (take k metas) vc) = Inr ()"
    and "staticMethod (metas ! k) = None"
    and "voterClass (metas ! k) = Some cls"
    and "getVoterInstance (moduleRef this) cls = Inr v"
    and "\<forall>method. v (methodNameOrVote (voterMethodName (metas ! k))) \<noteq> Some (Function method)"
  shows "snd (intercept this c next) =
           Inl (case v (methodNameOrVote (voterMethodName (metas ! k))) of
                  None \<Rightarrow>
                    Error (''Method '' @ methodNameOrVote (voterMethodName (metas ! k)) @
                           '' not found in '' @ className cls)
                | Some p \<Rightarrow>
                    TypeError (methodNameOrVote (voterMethodName (metas ! k)) @
                               '' is not a function in '' @ className cls))
       \<and> (\<exists>e. snd (intercept this c next) = Inl e \<and> \<not> isDenial e)
       \<and> fst (intercept this c next) =
           BuildContext # fst (executePreAuthVoters (moduleRef this) (take k metas) vc) @
             [VoterResolved Pre k]
       \<and> VoterMethodCalled Pre k \<notin> set (fst (intercept this c next))
       \<and> HandlerCalled \<notin> set (fst (intercept this c next))"
proof -
  let ?name = "methodNameOrVote (voterMethodName (metas ! k))"
  let ?e = "case v ?name of
              None \<Rightarrow> Error (''Method '' @ ?name @ '' not found in '' @ className cls)
            | Some p \<Rightarrow> TypeError (?name @ '' is not a function in '' @ className cls)"
  let ?before = "fst (executePreAuthVoters (moduleRef this) (take k metas) vc)"
  have turn: "preAuthVoter (moduleRef this) k (metas ! k) vc = ([VoterResolved Pre k], Inl ?e)"
    by (rule preAuthVoter_lookup_fails [OF assms(5-8)])
  have loop: "executePreAuthVoters (moduleRef this) metas vc = (?before @ [VoterResolved Pre k], Inl ?e)"
    using executePreAuthVoters_stops [OF assms(3,4), of ?e] turn by simp
  have whole: "intercept this c next = (BuildContext # ?before @ [VoterResolved Pre k], Inl ?e)"
    using intercept_pre_throws [OF assms(1,2), of ?e "next"] loop by simp
  have no_denial: "\<not> isDenial ?e"
    by (simp split: option.splits)
  have no_call: "VoterMethodCalled Pre k \<notin> set ?before"
    by (rule no_later_rule_in_prefix [of _ k]) simp_all
  have no_handler: "HandlerCalled \<notin> set ?before"
    by (rule no_handler_in_loop)
  from whole no_denial no_call no_handler show ?thesis by simp
qed

theorem missing_method_is_configuration_error_witness:
  "snd (intercept (interceptorWith [(PRE_AUTH_VOTER_METADATA, getUser) \<mapsto> [allowRule, missingMethodRule]])
          httpContext nextHandler) =
     Inl (Error ''Method nonExistentMethod not found in TestVoter'')
   \<and> snd (intercept (interceptorWith [(PRE_AUTH_VOTER_METADATA, getUser) \<mapsto> [allowRule, labelRule]])
            httpContext nextHandler) =
       Inl (TypeError ''label is not a function in TestVoter'')
   \<and> fst (intercept (interceptorWith [(PRE_AUTH_VOTER_METADATA, getUser) \<mapsto> [allowRule, missingMethodRule]])
            httpContext nextHandler) =
       [BuildContext, StaticMethodCalled Pre 0, VoterResolved Pre 1]"
proof -
  let ?M = "[allowRule, missingMethodRule]"
  let ?L = "[allowRule, labelRule]"
  let ?IM = "interceptorWith [(PRE_AUTH_VOTER_METADATA, getUser) \<mapsto> ?M]"
  let ?IL = "interceptorWith [(PRE_AUTH_VOTER_METADATA, getUser) \<mapsto> ?L]"
  obtain vc where vc: "buildVoterContext httpContext = Inr vc"
    using buildVoterContext_httpContext by blast
  have m1: "reflector ?IM (PRE_AUTH_VOTER_METADATA, getHandler httpContext) = Some ?M"
    by (simp add: interceptorWith_def httpContext_def)
  have l1: "reflector ?IL (PRE_AUTH_VOTER_METADATA, getHandler httpContext) = Some ?L"
    by (simp add: interceptorWith_def httpContext_def)
  have m3: "Suc 0 < length ?M" by simp
  have l3: "Suc 0 < length ?L" by simp
  have m4: "snd (executePreAuthVoters (moduleRef ?IM) (take (Suc 0) ?M) vc) = Inr ()"
    by (simp add: executePreAuthVoters_def preAuthVoter_allowRule)
  have l4: "snd (executePreAuthVoters (moduleRef ?IL) (take (Suc 0) ?L) vc) = Inr ()"
    by (simp add: executePreAuthVoters_def preAuthVoter_allowRule)
  have m5: "staticMethod (?M ! Suc 0) = None" by (simp add: missingMethodRule_def)
  have l5: "staticMethod (?L ! Suc 0) = None" by (simp add: labelRule_def)
  have m6: "voterClass (?M ! Suc 0) = Some TestVoter" by (simp add: missingMethodRule_def)
  have l6: "voterClass (?L ! Suc 0) = Some TestVoter" by (simp add: labelRule_def)
  have m7: "getVoterInstance (moduleRef ?IM) TestVoter = Inr testVoter"
    by (simp add: getVoterInstance_def interceptorWith_def TestVoter_def)
  have l7: "getVoterInstance (moduleRef ?IL) TestVoter = Inr testVoter"
    by (simp add: getVoterInstance_def interceptorWith_def TestVoter_def)
  have m8: "\<forall>method. testVoter (methodNameOrVote (voterMethodName (?M ! Suc 0))) \<noteq> Some (Function method)"
    by (simp add: missingMethodRule_def methodNameOrVote_def testVoter_def)
  have l8: "\<forall>method. testVoter (methodNameOrVote (voterMethodName (?L ! Suc 0))) \<noteq> Some (Function method)"
    by (simp add: labelRule_def methodNameOrVote_def testVoter_def)
  have before: "fst (executePreAuthVoters (moduleRef ?IM) [allowRule] vc) = [StaticMethodCalled Pre 0]"
    by (simp add: executePreAuthVoters_def preAuthVoter_allowRule)
  have name_m: "methodNameOrVote (voterMethodName missingMethodRule) = ''nonExistentMethod''"
    by (simp add: missingMethodRule_def methodNameOrVote_def)
  have name_l: "methodNameOrVote (voterMethodName labelRule) = ''label''"
    by (simp add: labelRule_def methodNameOrVote_def)
  have look_m: "testVoter ''nonExistentMethod'' = None"
    by (simp add: testVoter_def)
  have look_l: "testVoter ''label'' = Some (NonFunction (JStr ''test''))"
    by (simp add: testVoter_def)
  have cn: "className TestVoter = ''TestVoter''"
    by (simp add: TestVoter_def)
  from missing_method_is_configuration_error [OF m1 vc m3 m4 m5 m6 m7 m8, of nextHandler]
  have M: "snd (intercept ?IM httpContext nextHandler) =
      Inl (Error ''Method nonExistentMethod not found in TestVoter'')
    \<and> fst (intercept ?IM httpContext nextHandler) =
      [BuildContext, StaticMethodCalled Pre 0, VoterResolved Pre 1]"
    by (simp add: before name_m look_m cn)
  from missing_method_is_configuration_error [OF l1 vc l3 l4 l5 l6 l7 l8, of nextHandler]
  have L: "snd (intercept ?IL httpContext nextHandler) =
      Inl (TypeError ''label is not a function in TestVoter'')"
    by (simp add: name_l look_l cn)
  from M L show ?thesis by simp
qed

text \<open>
  C8. The rules of a handler and a phase are the descriptors that the
  registration calls for this handler and phase appended, in the order of the
  calls. An interception evaluates them in exactly this order: the trace is
  the turns of the pre-phase rules at positions \<open>0\<close>, \<open>1\<close>, ... one after
  the other, then the handler, then the turns of the post-phase rules at
  positions \<open>0\<close>, \<open>1\<close>, ... The turn of a rule starts only when the turn of
  every rule registered before it for the same handler and phase has
  completed, and the evaluation ends with the first turn that throws, with
  what this turn throws. Within a loop the decision functions are called by
  increasing position, each at most once.
\<close>

theorem evaluation_order_is_registration_order:
  assumes "pre = registeredBy calls PRE_AUTH_VOTER_METADATA (getHandler c)"
    and "post = registeredBy calls POST_AUTH_VOTER_METADATA (getHandler c)"
    and "pre \<noteq> [] \<or> post \<noteq> []"
    and "buildVoterContext c = Inr vc"
  shows "(\<forall>j e. j < length pre
            \<and> (\<forall>i<j. snd (preAuthVoter mr i (pre ! i) vc) = Inr ())
            \<and> snd (preAuthVoter mr j (pre ! j) vc) = Inl e \<longrightarrow>
          intercept \<lparr>reflector = registerAll calls Map.empty, moduleRef = mr\<rparr> c next =
            (BuildContext #
               concat (map (\<lambda>i. fst (preAuthVoter mr i (pre ! i) vc)) [0..<Suc j]),
             Inl e))
       \<and> (\<forall>d j e. (\<forall>i<length pre. snd (preAuthVoter mr i (pre ! i) vc) = Inr ())
            \<and> handle next = Inr d
            \<and> j < length post
            \<and> (\<forall>i<j. snd (postAuthVoter mr i (post ! i) (vc\<lparr>data := d\<rparr>)) = Inr ())
            \<and> snd (postAuthVoter mr j (post ! j) (vc\<lparr>data := d\<rparr>)) = Inl e \<longrightarrow>
          intercept \<lparr>reflector = registerAll calls Map.empty, moduleRef = mr\<rparr> c next =
            (BuildContext #
               concat (map (\<lambda>i. fst (preAuthVoter mr i (pre ! i) vc)) [0..<length pre]) @
               HandlerCalled #
               concat (map (\<lambda>i. fst (postAuthVoter mr i (post ! i) (vc\<lparr>data := d\<rparr>)))
                         [0..<Suc j]),
             Inl e))
       \<and> (\<forall>d. (\<forall>i<length pre. snd (preAuthVoter mr i (pre ! i) vc) = Inr ())
            \<and> handle next = Inr d
            \<and> (\<forall>i<length post. snd (postAuthVoter mr i (post ! i) (vc\<lparr>data := d\<rparr>)) = Inr ())
            \<longrightarrow>
          intercept \<lparr>reflector = registerAll calls Map.empty, moduleRef = mr\<rparr> c next =
            (BuildContext #
               concat (map (\<lambda>i. fst (preAuthVoter mr i (pre ! i) vc)) [0..<length pre]) @
               HandlerCalled #
               concat (map (\<lambda>i. fst (postAuthVoter mr i (post ! i) (vc\<lparr>data := d\<rparr>)))
                         [0..<length post]),
             Inr d))
       \<and> (\<forall>e. (\<forall>i<length pre. snd (preAuthVoter mr i (pre ! i) vc) = Inr ())
            \<and> handle next = Inl e \<longrightarrow>
          intercept \<lparr>reflector = registerAll calls Map.empty, moduleRef = mr\<rparr> c next =
            (BuildContext #
               concat (map (\<lambda>i. fst (preAuthVoter mr i (pre ! i) vc)) [0..<length pre]) @
               [HandlerCalled],
             Inl e))
       \<and> existingMetadata (registerAll calls reg) key h =
           existingMetadata reg key h @ registeredBy calls key h
       \<and> sorted_wrt (<) (decisionIndices (fst (executePreAuthVoters mr metas ctx)))
       \<and> sorted_wrt (<) (decisionIndices (fst (executePostAuthVoters mr metas ctx)))"
proof -
  let ?I = "\<lparr>reflector = registerAll calls Map.empty, moduleRef = mr\<rparr>"
  let ?preAll = "concat (map (\<lambda>i. fst (preAuthVoter mr i (pre ! i) vc)) [0..<length pre])"
  have whole: "intercept ?I c next =
      andThen ([BuildContext], Inr vc)
        (\<lambda>vc. andThen (executePreAuthVoters mr pre vc)
           (\<lambda>_. if post = [] then ([HandlerCalled], handle next)
                else andThen ([HandlerCalled], handle next)
                  (\<lambda>d. andThen (executePostAuthVoters mr post (vc\<lparr>data := d\<rparr>))
                     (\<lambda>_. ([], Inr d)))))"
    using assms(3)
    by (simp only: intercept_registered assms(1,2) [symmetric] assms(4)) auto
  have A: "intercept ?I c next =
      (BuildContext # concat (map (\<lambda>i. fst (preAuthVoter mr i (pre ! i) vc)) [0..<Suc j]), Inl e)"
    if "j < length pre"
      and "\<forall>i<j. snd (preAuthVoter mr i (pre ! i) vc) = Inr ()"
      and "snd (preAuthVoter mr j (pre ! j) vc) = Inl e" for j e
  proof -
    from executePreAuthVoters_from_throws [of j pre mr 0 vc e] that
    have "executePreAuthVoters mr pre vc =
        (concat (map (\<lambda>i. fst (preAuthVoter mr i (pre ! i) vc)) [0..<Suc j]), Inl e)"
      by (simp add: executePreAuthVoters_def)
    then show ?thesis by (simp add: whole)
  qed
  have passed: "executePreAuthVoters mr pre vc = (?preAll, Inr ())"
    if "\<forall>i<length pre. snd (preAuthVoter mr i (pre ! i) vc) = Inr ()"
    using executePreAuthVoters_from_returns [of pre mr 0 vc] that
    by (simp add: executePreAuthVoters_def)
  have B: "intercept ?I c next =
      (BuildContext # ?preAll @ HandlerCalled #
         concat (map (\<lambda>i. fst (postAuthVoter mr i (post ! i) (vc\<lparr>data := d\<rparr>))) [0..<Suc j]),
       Inl e)"
    if "\<forall>i<length pre. snd (preAuthVoter mr i (pre ! i) vc) = Inr ()"
      and "handle next = Inr d"
      and "j < length post"
      and "\<forall>i<j. snd (postAuthVoter mr i (post ! i) (vc\<lparr>data := d\<rparr>)) = Inr ()"
      and "snd (postAuthVoter mr j (post ! j) (vc\<lparr>data := d\<rparr>)) = Inl e" for d j e
  proof -
    from that(3) have nonempty: "post \<noteq> []" by auto
    from executePostAuthVoters_from_throws [of j post mr 0 "vc\<lparr>data := d\<rparr>" e] that(3-5)
    have "executePostAuthVoters mr post (vc\<lparr>data := d\<rparr>) =
        (concat (map (\<lambda>i. fst (postAuthVoter mr i (post ! i) (vc\<lparr>data := d\<rparr>))) [0..<Suc j]),
         Inl e)"
      by (simp add: executePostAuthVoters_def)
    with passed [OF that(1)] that(2) nonempty show ?thesis
      by (simp add: whole)
  qed
  have C: "intercept ?I c next =
      (BuildContext # ?preAll @ HandlerCalled #
         concat (map (\<lambda>i. fst (postAuthVoter mr i (post ! i) (vc\<lparr>data := d\<rparr>)))
                   [0..<length post]),
       Inr d)"
    if "\<forall>i<length pre. snd (preAuthVoter mr i (pre ! i) vc) = Inr ()"
      and "handle next = Inr d"
      and "\<forall>i<length post. snd (postAuthVoter mr i (post ! i) (vc\<lparr>data := d\<rparr>)) = Inr ()" for d
  proof -
    from executePostAuthVoters_from_returns [of post mr 0 "vc\<lparr>data := d\<rparr>"] that(3)
    have "executePostAuthVoters mr post (vc\<lparr>data := d\<rparr>) =
        (concat (map (\<lambda>i. fst (postAuthVoter mr i (post ! i) (vc\<lparr>data := d\<rparr>)))
                   [0..<length post]),
         Inr ())"
      by (simp add: executePostAuthVoters_def)
    with passed [OF that(1)] that(2) show ?thesis
      by (cases "post = []") (simp_all add: whole)
  qed
  have D: "intercept ?I c next = (BuildContext # ?preAll @ [HandlerCalled], Inl e)"
    if "\<forall>i<length pre. snd (preAuthVoter mr i (pre ! i) vc) = Inr ()"
      and "handle next = Inl e" for e
    using passed [OF that(1)] that(2) by (simp add: whole)
  have registry: "existingMetadata (registerAll calls reg) key h =
      existingMetadata reg key h @ registeredBy calls key h"
    by (rule existingMetadata_registerAll)
  have sorted_pre: "sorted_wrt (<) (decisionIndices (fst (executePreAuthVoters mr metas ctx)))"
    using sorted_decisionIndices_pre_from [of mr 0 metas ctx]
    by (simp add: executePreAuthVoters_def)
  have sorted_post: "sorted_wrt (<) (decisionIndices (fst (executePostAuthVoters mr metas ctx)))"
    using sorted_decisionIndices_post_from [of mr 0 metas ctx]
    by (simp add: executePostAuthVoters_def)
  from A B C D registry sorted_pre sorted_post show ?thesis
    by blast
qed

theorem evaluation_order_is_registration_order_witness:
  "intercept
     \<lparr>reflector =
        registerAll
          [(PreAuthVoterDecorator (ArrowFunction (\<lambda>ctx. Inr True)), getUser),
           (PostAuthVoterDecorator (ArrowFunction (\<lambda>ctx. Inr True)), getUser),
           (PreAuthVoterDecorator (ArrowFunction (\<lambda>ctx. Inr False)), createUser),
           (PreAuthVoterDecorator (ArrowFunction (\<lambda>ctx. Inr False)), getUser)] Map.empty,
      moduleRef = (\<lambda>c. None)\<rparr> httpContext nextHandler =
     ([BuildContext, StaticMethodCalled Pre 0, StaticMethodCalled Pre 1],
      Inl (VoterException ''Pre-authorization access denied''))
   \<and> intercept
       \<lparr>reflector =
          registerAll
            [(PreAuthVoterDecorator (ArrowFunction (\<lambda>ctx. Inr False)), getUser),
             (PostAuthVoterDecorator (ArrowFunction (\<lambda>ctx. Inr True)), getUser),
             (PreAuthVoterDecorator (ArrowFunction (\<lambda>ctx. Inr True)), getUser)] Map.empty,
        moduleRef = (\<lambda>c. None)\<rparr> httpContext nextHandler =
       ([BuildContext, StaticMethodCalled Pre 0],
        Inl (VoterException ''Pre-authorization access denied''))
   \<and> intercept
       \<lparr>reflector =
          registerAll
            [(PreAuthVoterDecorator (ArrowFunction (\<lambda>ctx. Inr True)), getUser),
             (PostAuthVoterDecorator (ArrowFunction (\<lambda>ctx. Inr True)), getUser),
             (PostAuthVoterDecorator (ArrowFunction (\<lambda>ctx. Inr False)), getUser)] Map.empty,
        moduleRef = (\<lambda>c. None)\<rparr> httpContext nextHandler =
       ([BuildContext, StaticMethodCalled Pre 0, HandlerCalled, StaticMethodCalled Post 0,
         StaticMethodCalled Post 1],
        Inl (VoterException ''Post-authorization access denied''))"
proof -
  let ?A = "[(PreAuthVoterDecorator (ArrowFunction (\<lambda>ctx. Inr True)), getUser),
           (PostAuthVoterDecorator (ArrowFunction (\<lambda>ctx. Inr True)), getUser),
           (PreAuthVoterDecorator (ArrowFunction (\<lambda>ctx. Inr False)), createUser),
           (PreAuthVoterDecorator (ArrowFunction (\<lambda>ctx. Inr False)), getUser)]"
  let ?B = "[(PreAuthVoterDecorator (ArrowFunction (\<lambda>ctx. Inr False)), getUser),
             (PostAuthVoterDecorator (ArrowFunction (\<lambda>ctx. Inr True)), getUser),
             (PreAuthVoterDecorator (ArrowFunction (\<lambda>ctx. Inr True)), getUser)]"
  let ?C = "[(PreAuthVoterDecorator (ArrowFunction (\<lambda>ctx. Inr True)), getUser),
             (PostAuthVoterDecorator (ArrowFunction (\<lambda>ctx. Inr True)), getUser),
             (PostAuthVoterDecorator (ArrowFunction (\<lambda>ctx. Inr False)), getUser)]"
  let ?pre_denied = "VoterException ''Pre-authorization access denied''"
  let ?post_denied = "VoterException ''Post-authorization access denied''"
  obtain vc where vc: "buildVoterContext httpContext = Inr vc"
    using buildVoterContext_httpContext by blast
  have out: "handle nextHandler = Inr (JStr ''output'')"
    by (simp add: nextHandler_def)
  have preA: "registeredBy ?A PRE_AUTH_VOTER_METADATA (getHandler httpContext) =
      [allowRule, denyRule]"
    by (simp add: httpContext_def getUser_def createUser_def classOrMethodMetadata_def
        allowRule_def denyRule_def)
  have preB: "registeredBy ?B PRE_AUTH_VOTER_METADATA (getHandler httpContext) =
      [denyRule, allowRule]"
    by (simp add: httpContext_def classOrMethodMetadata_def allowRule_def denyRule_def)
  have preC: "registeredBy ?C PRE_AUTH_VOTER_METADATA (getHandler httpContext) = [allowRule]"
    by (simp add: httpContext_def classOrMethodMetadata_def allowRule_def)
  have postC: "registeredBy ?C POST_AUTH_VOTER_METADATA (getHandler httpContext) =
      [allowRule, denyRule]"
    by (simp add: httpContext_def classOrMethodMetadata_def allowRule_def denyRule_def)
  have neA: "registeredBy ?A PRE_AUTH_VOTER_METADATA (getHandler httpContext) \<noteq> []
      \<or> registeredBy ?A POST_AUTH_VOTER_METADATA (getHandler httpContext) \<noteq> []"
    unfolding preA by simp
  have neB: "registeredBy ?B PRE_AUTH_VOTER_METADATA (getHandler httpContext) \<noteq> []
      \<or> registeredBy ?B POST_AUTH_VOTER_METADATA (getHandler httpContext) \<noteq> []"
    unfolding preB by simp
  have neC: "registeredBy ?C PRE_AUTH_VOTER_METADATA (getHandler httpContext) \<noteq> []
      \<or> registeredBy ?C POST_AUTH_VOTER_METADATA (getHandler httpContext) \<noteq> []"
    unfolding preC by simp
  note A = evaluation_order_is_registration_order
    [OF refl refl neA vc, of "\<lambda>c. None" nextHandler, unfolded preA,
      THEN conjunct1, rule_format, of "Suc 0" ?pre_denied]
  note B = evaluation_order_is_registration_order
    [OF refl refl neB vc, of "\<lambda>c. None" nextHandler, unfolded preB,
      THEN conjunct1, rule_format, of 0 ?pre_denied]
  note C = evaluation_order_is_registration_order
    [OF refl refl neC vc, of "\<lambda>c. None" nextHandler, unfolded preC postC,
      THEN conjunct2, THEN conjunct1, rule_format, of "JStr ''output''" "Suc 0" ?post_denied]
  have a: "intercept \<lparr>reflector = registerAll ?A Map.empty, moduleRef = (\<lambda>c. None)\<rparr>
      httpContext nextHandler =
      ([BuildContext, StaticMethodCalled Pre 0, StaticMethodCalled Pre 1], Inl ?pre_denied)"
    using A by (simp add: preAuthVoter_allowRule preAuthVoter_denyRule)
  have b: "intercept \<lparr>reflector = registerAll ?B Map.empty, moduleRef = (\<lambda>c. None)\<rparr>
      httpContext nextHandler =
      ([BuildContext, StaticMethodCalled Pre 0], Inl ?pre_denied)"
    using B by (simp add: preAuthVoter_denyRule)
  have c: "intercept \<lparr>reflector = registerAll ?C Map.empty, moduleRef = (\<lambda>c. None)\<rparr>
      httpContext nextHandler =
      ([BuildContext, StaticMethodCalled Pre 0, HandlerCalled, StaticMethodCalled Post 0,
        StaticMethodCalled Post 1], Inl ?post_denied)"
    using C out
    by (simp add: preAuthVoter_allowRule postAuthVoter_allowRule postAuthVoter_denyRule)
  from a b c show ?thesis by simp
qed

text \<open>
  C9. A descriptor that carries both an inline function and a voter class: in
  both phases the turn of the rule is the call of the inline function, and the
  result of this call decides the rule: the turn throws what the function
  throws, completes when it returns true, and throws the denial of the phase
  when it returns false. The voter class plays no part: an interception is the
  same as with the descriptor stripped of its class and method name, its trace
  has no event of resolving the voter, of calling \<^verbatim>\<open>supports\<close> or of
  calling a method for this rule, and when the loop reaches the rule and the
  inline function returns false the interception ends in the denial, whatever
  the voter of the class would answer.
\<close>

theorem static_method_takes_precedence:
  assumes "staticMethod meta = Some f" and "voterClass meta = Some cls"
  shows "preAuthVoter mr i meta ctx =
           ([StaticMethodCalled Pre i],
            case f ctx of
              Inl e \<Rightarrow> Inl e
            | Inr hasAccess \<Rightarrow>
                if hasAccess then Inr ()
                else Inl (VoterException ''Pre-authorization access denied''))
       \<and> postAuthVoter mr i meta ctx =
           ([StaticMethodCalled Post i],
            case f ctx of
              Inl e \<Rightarrow> Inl e
            | Inr hasAccess \<Rightarrow>
                if hasAccess then Inr ()
                else Inl (VoterException ''Post-authorization access denied''))
       \<and> (reflector this (key, getHandler c) = Some (before @ meta # rest) \<longrightarrow>
            intercept this c next =
              intercept
                (this\<lparr>reflector := (reflector this)((key, getHandler c) \<mapsto>
                   before @ meta\<lparr>voterClass := None, voterMethodName := None\<rparr> # rest)\<rparr>)
                c next
            \<and> VoterResolved (keyPhase key) (length before) \<notin> set (fst (intercept this c next))
            \<and> VoterMethodCalled (keyPhase key) (length before) \<notin>
                set (fst (intercept this c next))
            \<and> (key = POST_AUTH_VOTER_METADATA \<longrightarrow>
                SupportsCalled (length before) \<notin> set (fst (intercept this c next))))
       \<and> (reflector this (PRE_AUTH_VOTER_METADATA, getHandler c) = Some (before @ meta # rest)
          \<and> buildVoterContext c = Inr vc
          \<and> snd (executePreAuthVoters (moduleRef this) before vc) = Inr ()
          \<and> f vc = Inr False \<longrightarrow>
            intercept this c next =
              (BuildContext # fst (executePreAuthVoters (moduleRef this) before vc) @
                 [StaticMethodCalled Pre (length before)],
               Inl (VoterException ''Pre-authorization access denied'')))
       \<and> (reflector this (POST_AUTH_VOTER_METADATA, getHandler c) = Some (before @ meta # rest)
          \<and> buildVoterContext c = Inr vc
          \<and> snd (executePreAuthVoters (moduleRef this)
                 (existingMetadata (reflector this) PRE_AUTH_VOTER_METADATA (getHandler c)) vc) =
              Inr ()
          \<and> handle next = Inr d
          \<and> snd (executePostAuthVoters (moduleRef this) before (vc\<lparr>data := d\<rparr>)) = Inr ()
          \<and> f (vc\<lparr>data := d\<rparr>) = Inr False \<longrightarrow>
            intercept this c next =
              (BuildContext #
                 fst (executePreAuthVoters (moduleRef this)
                        (existingMetadata (reflector this) PRE_AUTH_VOTER_METADATA (getHandler c))
                        vc) @
                 HandlerCalled #
                 fst (executePostAuthVoters (moduleRef this) before (vc\<lparr>data := d\<rparr>)) @
                 [StaticMethodCalled Post (length before)],
               Inl (VoterException ''Post-authorization access denied'')))"
proof -
  let ?meta' = "meta\<lparr>voterClass := None, voterMethodName := None\<rparr>"
  have turns: "preAuthVoter mr i meta ctx =
      ([StaticMethodCalled Pre i],
       case f ctx of
         Inl e \<Rightarrow> Inl e
       | Inr hasAccess \<Rightarrow>
           if hasAccess then Inr ()
           else Inl (VoterException ''Pre-authorization access denied''))"
    "postAuthVoter mr i meta ctx =
      ([StaticMethodCalled Post i],
       case f ctx of
         Inl e \<Rightarrow> Inl e
       | Inr hasAccess \<Rightarrow>
           if hasAccess then Inr ()
           else Inl (VoterException ''Post-authorization access denied''))"
    by (rule callStaticMethod_turn [OF assms(1)])+
  have whole: "intercept this c next =
      intercept
        (this\<lparr>reflector := (reflector this)((key, getHandler c) \<mapsto> before @ ?meta' # rest)\<rparr>)
        c next
    \<and> VoterResolved (keyPhase key) (length before) \<notin> set (fst (intercept this c next))
    \<and> VoterMethodCalled (keyPhase key) (length before) \<notin> set (fst (intercept this c next))
    \<and> (key = POST_AUTH_VOTER_METADATA \<longrightarrow>
        SupportsCalled (length before) \<notin> set (fst (intercept this c next)))"
    if registered: "reflector this (key, getHandler c) = Some (before @ meta # rest)"
  proof -
    have same: "intercept
        (this\<lparr>reflector := (reflector this)((key, getHandler c) \<mapsto> before @ ?meta' # rest)\<rparr>)
        c next = intercept this c next"
      by (rule intercept_replace_same [OF registered])
        (simp_all add: loops_same_turn [OF turn_without_class [OF assms(1)]])
    have resolved: "VoterResolved (keyPhase key) (length before) \<notin> set (fst (intercept this c next))"
      using intercept_only_static_event_at
        [OF assms(1) registered, of "VoterResolved (keyPhase key) (length before)" "next"]
      by auto
    have called: "VoterMethodCalled (keyPhase key) (length before) \<notin>
        set (fst (intercept this c next))"
      using intercept_only_static_event_at
        [OF assms(1) registered, of "VoterMethodCalled (keyPhase key) (length before)" "next"]
      by auto
    have supports: "SupportsCalled (length before) \<notin> set (fst (intercept this c next))"
      if "key = POST_AUTH_VOTER_METADATA"
      using intercept_only_static_event_at
        [OF assms(1) registered, of "SupportsCalled (length before)" "next"] that
      by auto
    from same resolved called supports show ?thesis by simp
  qed
  have refused_pre: "intercept this c next =
      (BuildContext # fst (executePreAuthVoters (moduleRef this) before vc) @
         [StaticMethodCalled Pre (length before)],
       Inl (VoterException ''Pre-authorization access denied''))"
    if "reflector this (PRE_AUTH_VOTER_METADATA, getHandler c) = Some (before @ meta # rest)"
      and "buildVoterContext c = Inr vc"
      and "snd (executePreAuthVoters (moduleRef this) before vc) = Inr ()"
      and "f vc = Inr False"
    by (rule intercept_static_refuses_pre [OF assms(1) that])
  have refused_post: "intercept this c next =
      (BuildContext #
         fst (executePreAuthVoters (moduleRef this)
                (existingMetadata (reflector this) PRE_AUTH_VOTER_METADATA (getHandler c)) vc) @
         HandlerCalled #
         fst (executePostAuthVoters (moduleRef this) before (vc\<lparr>data := d\<rparr>)) @
         [StaticMethodCalled Post (length before)],
       Inl (VoterException ''Post-authorization access denied''))"
    if "reflector this (POST_AUTH_VOTER_METADATA, getHandler c) = Some (before @ meta # rest)"
      and "buildVoterContext c = Inr vc"
      and "snd (executePreAuthVoters (moduleRef this)
             (existingMetadata (reflector this) PRE_AUTH_VOTER_METADATA (getHandler c)) vc) =
           Inr ()"
      and "handle next = Inr d"
      and "snd (executePostAuthVoters (moduleRef this) before (vc\<lparr>data := d\<rparr>)) = Inr ()"
      and "f (vc\<lparr>data := d\<rparr>) = Inr False"
    by (rule intercept_static_refuses_post [OF assms(1) that])
  from turns whole refused_pre refused_post show ?thesis by blast
qed

theorem static_method_takes_precedence_witness:
  "intercept (interceptorWith [(PRE_AUTH_VOTER_METADATA, getUser) \<mapsto> [allowRule, bothDenyRule]])
     httpContext nextHandler =
     ([BuildContext, StaticMethodCalled Pre 0, StaticMethodCalled Pre 1],
      Inl (VoterException ''Pre-authorization access denied''))
   \<and> intercept (interceptorWith [(POST_AUTH_VOTER_METADATA, getUser) \<mapsto> [bothDenyRule]])
       httpContext nextHandler =
       ([BuildContext, HandlerCalled, StaticMethodCalled Post 0],
        Inl (VoterException ''Post-authorization access denied''))
   \<and> preAuthVoter (\<lambda>c. None) 0 bothRule voterContext0 = ([StaticMethodCalled Pre 0], Inr ())
   \<and> postAuthVoter (\<lambda>c. None) 0 bothRule (voterContext0\<lparr>data := JObj []\<rparr>) =
       ([StaticMethodCalled Post 0], Inr ())"
proof -
  let ?refuse = "\<lambda>ctx :: VoterContext. (Inr False :: exn + bool)"
  let ?allow = "\<lambda>ctx :: VoterContext. (Inr True :: exn + bool)"
  let ?IPre = "interceptorWith [(PRE_AUTH_VOTER_METADATA, getUser) \<mapsto> [allowRule, bothDenyRule]]"
  let ?IPost = "interceptorWith [(POST_AUTH_VOTER_METADATA, getUser) \<mapsto> [bothDenyRule]]"
  obtain vc where vc: "buildVoterContext httpContext = Inr vc"
    using buildVoterContext_httpContext by blast
  have d1: "staticMethod bothDenyRule = Some ?refuse" by (simp add: bothDenyRule_def)
  have d2: "voterClass bothDenyRule = Some AllowingVoter" by (simp add: bothDenyRule_def)
  have a1: "staticMethod bothRule = Some ?allow" by (simp add: bothRule_def)
  have a2: "voterClass bothRule = Some TestVoter" by (simp add: bothRule_def)
  have out: "handle nextHandler = Inr (JStr ''output'')"
    by (simp add: nextHandler_def)
  have pre_list: "reflector ?IPre (PRE_AUTH_VOTER_METADATA, getHandler httpContext) =
      Some ([allowRule] @ bothDenyRule # [])"
    by (simp add: interceptorWith_def httpContext_def)
  have pre_before: "executePreAuthVoters (moduleRef ?IPre) [allowRule] vc =
      ([StaticMethodCalled Pre 0], Inr ())"
    by (simp add: executePreAuthVoters_def preAuthVoter_allowRule)
  have post_list: "reflector ?IPost (POST_AUTH_VOTER_METADATA, getHandler httpContext) =
      Some ([] @ bothDenyRule # [])"
    by (simp add: interceptorWith_def httpContext_def)
  have post_pre: "executePreAuthVoters (moduleRef ?IPost)
      (existingMetadata (reflector ?IPost) PRE_AUTH_VOTER_METADATA (getHandler httpContext)) vc =
      ([], Inr ())"
    by (simp add: executePreAuthVoters_def existingMetadata_def interceptorWith_def
        httpContext_def getUser_def)
  have post_before: "executePostAuthVoters (moduleRef ?IPost) [] (vc\<lparr>data := JStr ''output''\<rparr>) =
      ([], Inr ())"
    by (simp add: executePostAuthVoters_def)
  note refused = static_method_takes_precedence [OF d1 d2]
  note allowed = static_method_takes_precedence [OF a1 a2]
  have A: "intercept ?IPre httpContext nextHandler =
      ([BuildContext, StaticMethodCalled Pre 0, StaticMethodCalled Pre 1],
       Inl (VoterException ''Pre-authorization access denied''))"
    using refused [of _ _ _ ?IPre _ httpContext "[allowRule]" "[]" nextHandler vc,
        THEN conjunct2, THEN conjunct2, THEN conjunct2, THEN conjunct1]
      pre_list vc pre_before
    by simp
  have B: "intercept ?IPost httpContext nextHandler =
      ([BuildContext, HandlerCalled, StaticMethodCalled Post 0],
       Inl (VoterException ''Post-authorization access denied''))"
    using refused [of _ _ _ ?IPost _ httpContext "[]" "[]" nextHandler vc "JStr ''output''",
        THEN conjunct2, THEN conjunct2, THEN conjunct2, THEN conjunct2]
      post_list vc post_pre post_before out
    by simp
  have C: "preAuthVoter (\<lambda>c. None) 0 bothRule voterContext0 = ([StaticMethodCalled Pre 0], Inr ())"
    using allowed [of "\<lambda>c. None" 0 voterContext0, THEN conjunct1] by simp
  have D: "postAuthVoter (\<lambda>c. None) 0 bothRule (voterContext0\<lparr>data := JObj []\<rparr>) =
      ([StaticMethodCalled Post 0], Inr ())"
    using allowed [of "\<lambda>c. None" 0 "voterContext0\<lparr>data := JObj []\<rparr>",
        THEN conjunct2, THEN conjunct1]
    by simp
  from A B C D show ?thesis by simp
qed

text \<open>
  C10. A descriptor that carries neither an inline function nor a voter
  class: in both phases its turn does nothing (no event, no error, no denial),
  and the loop goes on with the rules after it. At the interface: an
  interception whose rule list of a phase has such a descriptor ends as it does
  with a rule that returns true in its place, and has the same trace but for
  the call of that rule; and when every registered rule of the operation is
  such a descriptor, the interception calls the handler and the caller gets
  what the handler gives.
\<close>

theorem empty_rule_allowed:
  assumes "staticMethod meta = None" and "voterClass meta = None"
  shows "preAuthVoter mr i meta ctx = ([], Inr ())
       \<and> postAuthVoter mr i meta ctx = ([], Inr ())
       \<and> executePreAuthVoters mr (before @ meta # rest) ctx =
           andThen (executePreAuthVoters mr before ctx)
             (\<lambda>_. executePreAuthVoters_from mr (Suc (length before)) rest ctx)
       \<and> executePostAuthVoters mr (before @ meta # rest) ctx =
           andThen (executePostAuthVoters mr before ctx)
             (\<lambda>_. executePostAuthVoters_from mr (Suc (length before)) rest ctx)
       \<and> (reflector this (key, getHandler c) = Some (before @ meta # rest) \<longrightarrow>
            snd (intercept this c next) =
              snd (intercept
                     (this\<lparr>reflector := (reflector this)((key, getHandler c) \<mapsto>
                        before @ allowRule # rest)\<rparr>) c next)
            \<and> fst (intercept this c next) =
              filter (\<lambda>ev. ev \<noteq> StaticMethodCalled (keyPhase key) (length before))
                (fst (intercept
                        (this\<lparr>reflector := (reflector this)((key, getHandler c) \<mapsto>
                           before @ allowRule # rest)\<rparr>) c next)))
       \<and> ((\<forall>m\<in>set (existingMetadata (reflector this) PRE_AUTH_VOTER_METADATA (getHandler c)).
               staticMethod m = None \<and> voterClass m = None)
          \<and> (\<forall>m\<in>set (existingMetadata (reflector this) POST_AUTH_VOTER_METADATA (getHandler c)).
               staticMethod m = None \<and> voterClass m = None)
          \<and> buildVoterContext c = Inr vc \<longrightarrow>
            intercept this c next =
              ((if reflector this (PRE_AUTH_VOTER_METADATA, getHandler c) = None \<and>
                   reflector this (POST_AUTH_VOTER_METADATA, getHandler c) = None
                then [] else [BuildContext]) @ [HandlerCalled],
               handle next))"
proof -
  have turns: "preAuthVoter mr i meta ctx = ([], Inr ())"
    "postAuthVoter mr i meta ctx = ([], Inr ())"
    by (rule empty_turn [OF assms])+
  have loops: "executePreAuthVoters mr (before @ meta # rest) ctx =
      andThen (executePreAuthVoters mr before ctx)
        (\<lambda>_. executePreAuthVoters_from mr (Suc (length before)) rest ctx)"
    "executePostAuthVoters mr (before @ meta # rest) ctx =
      andThen (executePostAuthVoters mr before ctx)
        (\<lambda>_. executePostAuthVoters_from mr (Suc (length before)) rest ctx)"
    by (simp_all add: executePreAuthVoters_def executePostAuthVoters_def
        executePreAuthVoters_from_append executePostAuthVoters_from_append empty_turn [OF assms])
  have replaced: "snd (intercept this c next) =
        snd (intercept
               (this\<lparr>reflector := (reflector this)((key, getHandler c) \<mapsto>
                  before @ allowRule # rest)\<rparr>) c next)
      \<and> fst (intercept this c next) =
        filter (\<lambda>ev. ev \<noteq> StaticMethodCalled (keyPhase key) (length before))
          (fst (intercept
                  (this\<lparr>reflector := (reflector this)((key, getHandler c) \<mapsto>
                     before @ allowRule # rest)\<rparr>) c next))"
    if registered: "reflector this (key, getHandler c) = Some (before @ meta # rest)"
  proof (rule intercept_replace_filtered [OF registered])
    fix ctx
    assume "key = PRE_AUTH_VOTER_METADATA"
    then show "snd (executePreAuthVoters (moduleRef this) (before @ meta # rest) ctx) =
        snd (executePreAuthVoters (moduleRef this) (before @ allowRule # rest) ctx)
      \<and> fst (executePreAuthVoters (moduleRef this) (before @ meta # rest) ctx) =
        filter (\<lambda>ev. ev \<noteq> StaticMethodCalled (keyPhase key) (length before))
          (fst (executePreAuthVoters (moduleRef this) (before @ allowRule # rest) ctx))"
      using empty_rule_in_pre_loop [OF assms, of "moduleRef this" before rest ctx] by simp
  next
    fix ctx
    assume "key = POST_AUTH_VOTER_METADATA"
    then show "snd (executePostAuthVoters (moduleRef this) (before @ meta # rest) ctx) =
        snd (executePostAuthVoters (moduleRef this) (before @ allowRule # rest) ctx)
      \<and> fst (executePostAuthVoters (moduleRef this) (before @ meta # rest) ctx) =
        filter (\<lambda>ev. ev \<noteq> StaticMethodCalled (keyPhase key) (length before))
          (fst (executePostAuthVoters (moduleRef this) (before @ allowRule # rest) ctx))"
      using empty_rule_in_post_loop [OF assms, of "moduleRef this" before rest ctx] by simp
  next
    fix ev
    assume "phaseOf ev \<noteq> Some (keyPhase key)"
    then show "ev \<noteq> StaticMethodCalled (keyPhase key) (length before)" by auto
  qed
  have only_empty: "intercept this c next =
      ((if reflector this (PRE_AUTH_VOTER_METADATA, getHandler c) = None \<and>
           reflector this (POST_AUTH_VOTER_METADATA, getHandler c) = None
        then [] else [BuildContext]) @ [HandlerCalled],
       handle next)"
    if "\<forall>m\<in>set (existingMetadata (reflector this) PRE_AUTH_VOTER_METADATA (getHandler c)).
          staticMethod m = None \<and> voterClass m = None"
      and "\<forall>m\<in>set (existingMetadata (reflector this) POST_AUTH_VOTER_METADATA (getHandler c)).
          staticMethod m = None \<and> voterClass m = None"
      and "buildVoterContext c = Inr vc"
    by (rule intercept_empty_rules [OF that])
  from turns loops replaced only_empty show ?thesis by blast
qed

theorem empty_rule_allowed_witness:
  "intercept
     (interceptorWith [(PRE_AUTH_VOTER_METADATA, getUser) \<mapsto> [emptyRule],
                       (POST_AUTH_VOTER_METADATA, getUser) \<mapsto> [emptyRule, emptyRule]])
     httpContext nextHandler =
     ([BuildContext, HandlerCalled], Inr (JStr ''output''))
   \<and> intercept (interceptorWith [(PRE_AUTH_VOTER_METADATA, getUser) \<mapsto> [emptyRule, denyRule]])
       httpContext nextHandler =
       ([BuildContext, StaticMethodCalled Pre 1],
        Inl (VoterException ''Pre-authorization access denied''))
   \<and> preAuthVoter (\<lambda>c. None) 0 emptyRule voterContext0 = ([], Inr ())
   \<and> postAuthVoter (\<lambda>c. None) 0 emptyRule voterContext0 = ([], Inr ())"
proof -
  let ?E = "interceptorWith [(PRE_AUTH_VOTER_METADATA, getUser) \<mapsto> [emptyRule],
                             (POST_AUTH_VOTER_METADATA, getUser) \<mapsto> [emptyRule, emptyRule]]"
  let ?D = "interceptorWith [(PRE_AUTH_VOTER_METADATA, getUser) \<mapsto> [emptyRule, denyRule]]"
  let ?D' = "interceptorWith [(PRE_AUTH_VOTER_METADATA, getUser) \<mapsto> [allowRule, denyRule]]"
  let ?denied = "VoterException ''Pre-authorization access denied''"
  obtain vc where vc: "buildVoterContext httpContext = Inr vc"
    using buildVoterContext_httpContext by blast
  have h1: "staticMethod emptyRule = None" by (simp add: emptyRule_def)
  have h2: "voterClass emptyRule = None" by (simp add: emptyRule_def)
  note instance0 = empty_rule_allowed [OF h1 h2]
  have handler: "getHandler httpContext = getUser"
    by (simp add: httpContext_def)
  have e1: "\<forall>m\<in>set (existingMetadata (reflector ?E) PRE_AUTH_VOTER_METADATA
      (getHandler httpContext)). staticMethod m = None \<and> voterClass m = None"
    by (simp add: existingMetadata_def interceptorWith_def handler h1 h2)
  have e2: "\<forall>m\<in>set (existingMetadata (reflector ?E) POST_AUTH_VOTER_METADATA
      (getHandler httpContext)). staticMethod m = None \<and> voterClass m = None"
    by (simp add: existingMetadata_def interceptorWith_def handler h1 h2)
  have e3: "reflector ?E (PRE_AUTH_VOTER_METADATA, getHandler httpContext) \<noteq> None"
    by (simp add: interceptorWith_def handler)
  have A: "intercept ?E httpContext nextHandler = ([BuildContext, HandlerCalled], Inr (JStr ''output''))"
    using instance0 [of _ _ _ _ _ ?E _ httpContext nextHandler vc,
        THEN conjunct2, THEN conjunct2, THEN conjunct2, THEN conjunct2, THEN conjunct2]
      e1 e2 e3 vc
    by (simp add: nextHandler_def)
  have d1: "reflector ?D (PRE_AUTH_VOTER_METADATA, getHandler httpContext) =
      Some ([] @ emptyRule # [denyRule])"
    by (simp add: interceptorWith_def handler)
  have d2: "?D\<lparr>reflector := (reflector ?D)((PRE_AUTH_VOTER_METADATA, getHandler httpContext) \<mapsto>
      [allowRule, denyRule])\<rparr> = ?D'"
    by (simp add: interceptorWith_def handler)
  have d3: "reflector ?D' (PRE_AUTH_VOTER_METADATA, getHandler httpContext) =
      Some [allowRule, denyRule]"
    by (simp add: interceptorWith_def handler)
  have d4: "executePreAuthVoters (moduleRef ?D') [allowRule, denyRule] vc =
      ([StaticMethodCalled Pre 0, StaticMethodCalled Pre 1], Inl ?denied)"
    by (simp add: executePreAuthVoters_def preAuthVoter_allowRule preAuthVoter_denyRule)
  have with_allow: "intercept ?D' httpContext nextHandler =
      ([BuildContext, StaticMethodCalled Pre 0, StaticMethodCalled Pre 1], Inl ?denied)"
    using intercept_pre_throws [OF d3 vc, of ?denied nextHandler] d4 by simp
  have B: "intercept ?D httpContext nextHandler =
      ([BuildContext, StaticMethodCalled Pre 1], Inl ?denied)"
    using instance0 [of _ _ _ "[]" "[denyRule]" ?D PRE_AUTH_VOTER_METADATA httpContext nextHandler,
        THEN conjunct2, THEN conjunct2, THEN conjunct2, THEN conjunct2, THEN conjunct1]
      d1
    by (simp add: d2 with_allow prod_eq_iff)
  have C: "preAuthVoter (\<lambda>c. None) 0 emptyRule voterContext0 = ([], Inr ())"
    using instance0 [of "\<lambda>c. None" 0 voterContext0, THEN conjunct1] .
  have D: "postAuthVoter (\<lambda>c. None) 0 emptyRule voterContext0 = ([], Inr ())"
    using instance0 [of "\<lambda>c. None" 0 voterContext0, THEN conjunct2, THEN conjunct1] .
  from A B C D show ?thesis by simp
qed

end
